theory Spec2Isabelle
  imports Main
begin

section \<open>Errors, contexts and the remote call\<close>

text \<open>
  Go's \<open>error\<close> values as they occur in the program: the sentinel
  \<open>filepath.ErrBadPattern\<close>, an error built by \<open>fmt.Errorf\<close> (it carries exactly the
  formatted text), and an error handed over by a library or the operating system
  (\<open>url.Parse\<close>, the GraphQL client, \<open>os.ReadDir\<close>, \<open>os.RemoveAll\<close>,
  \<open>json.Marshal\<close>), kept opaque and identified by its text.
\<close>

datatype error = ErrBadPattern | Errorf string | Foreign string

fun Error :: "error \<Rightarrow> string" where
  "Error ErrBadPattern = ''syntax error in pattern''"
| "Error (Errorf s) = s"
| "Error (Foreign s) = s"

text \<open>
  A \<open>context.Context\<close>: the background context, which is never done, or a context
  derived by \<open>context.WithCancel\<close> from a parent, with the flag telling whether its
  cancel function has been called.
\<close>

datatype "context" = Background | WithCancel "context" bool

fun Done :: "context \<Rightarrow> bool" where
  "Done Background = False"
| "Done (WithCancel parent cancelled) = (cancelled \<or> Done parent)"

subsection \<open>internal/dgraph/export/export.go\<close>

record ExportInput =
  Format :: string
  Destination :: string
  AccessKey :: string
  SecretKey :: string
  SessionToken :: string
  Anonymous :: bool
  Namespace :: int

record Response =
  Message :: string
  Code :: string

record ExportOutput =
  Response :: Response
  ExportedFiles :: "string list"

text \<open>
  \<open>Client.cli\<close> is the GraphQL client bound to the endpoint; the model keeps the
  endpoint it was made for.
\<close>

record Client =
  cli :: string
  inp :: ExportInput

text \<open>
  What one call of \<open>cli.Mutate(ctx, &mutation, vars)\<close> does is the business of the
  GraphQL library and of the remote server: given the endpoint, the context the request
  is issued under and the \<open>input\<close> variable, it fails with a transport error or
  decodes the server's answer. It is a parameter of everything that calls it.
\<close>

type_synonym mutation = "string \<Rightarrow> context \<Rightarrow> ExportInput \<Rightarrow> error + ExportOutput"

type_synonym Option = "Client \<Rightarrow> Client"

definition WithAccessKey :: "string \<Rightarrow> Option" where
  "WithAccessKey v c = c\<lparr>inp := (inp c)\<lparr>AccessKey := v\<rparr>\<rparr>"

definition WithSecretKey :: "string \<Rightarrow> Option" where
  "WithSecretKey v c = c\<lparr>inp := (inp c)\<lparr>SecretKey := v\<rparr>\<rparr>"

definition WithAnonymous :: "bool \<Rightarrow> Option" where
  "WithAnonymous v c = c\<lparr>inp := (inp c)\<lparr>Anonymous := v\<rparr>\<rparr>"

text \<open>
  \<open>NewClient\<close>: \<open>url.Parse\<close> is the standard library's; its verdict on an endpoint
  (\<open>None\<close>: parsed) is a parameter. The fields the source leaves out of the struct
  literal hold Go's zero values.
\<close>

definition NewClient ::
  "(string \<Rightarrow> error option) \<Rightarrow> string \<Rightarrow> string \<Rightarrow> Option list \<Rightarrow> error + Client" where
  "NewClient url_Parse endpoint dest opts =
     (case url_Parse endpoint of
        Some err \<Rightarrow> Inl err
      | None \<Rightarrow>
          Inr (fold (\<lambda>opt c. opt c) opts
                 \<lparr>cli = endpoint,
                  inp = \<lparr>Format = ''rdf'', Destination = dest, AccessKey = [],
                         SecretKey = [], SessionToken = [], Anonymous = False,
                         Namespace = 0\<rparr>\<rparr>))"

text \<open>
  The text \<open>fmt.Errorf\<close> builds from
  \<^verbatim>\<open>export finished with unseccessfull code "%s": %s\<close>.
\<close>

definition unsuccessful_text :: "string \<Rightarrow> string \<Rightarrow> string" where
  "unsuccessful_text code msg =
     ''export finished with unseccessfull code '' @ [CHR 0x22] @ code @ [CHR 0x22]
       @ '': '' @ msg"

text \<open>
  \<open>Export\<close> takes the caller's context \<open>ctx\<close> and issues the mutation under
  \<open>context.Background()\<close>, as the source does. The result \<open>(*ExportOutput, error)\<close>
  is a sum: \<open>Inl err\<close> for \<open>(nil, err)\<close>, \<open>Inr out\<close> for \<open>(&out, nil)\<close>.
\<close>

definition Export :: "mutation \<Rightarrow> context \<Rightarrow> Client \<Rightarrow> error + ExportOutput" where
  "Export Mutate ctx c =
     (case Mutate (cli c) Background (inp c) of
        Inl err \<Rightarrow> Inl err
      | Inr out \<Rightarrow>
          (let resp = Response out in
           if Code resp \<noteq> ''Success''
           then Inl (Errorf (unsuccessful_text (Code resp) (Message resp)))
           else Inr out))"

definition GetFiles :: "ExportOutput \<Rightarrow> string list" where
  "GetFiles resp = fold (\<lambda>file files. files @ [file]) (ExportedFiles resp) []"


text \<open>Whether a result \<open>(value, err)\<close> came with \<open>err == nil\<close>.\<close>

definition succeeded :: "error + 'a \<Rightarrow> bool" where
  "succeeded r = (case r of Inl err \<Rightarrow> False | Inr v \<Rightarrow> True)"

section \<open>The matcher of the standard library\<close>

text \<open>
  \<open>cleanupTmpFiles\<close> matches names with \<open>filepath.Match\<close> of Go's standard library
  (\<open>path/filepath/match.go\<close>, Unix build: the separator is \<open>/\<close> and a backslash
  escapes). The functions below follow that file: \<open>getEsc\<close>, the range loop of a
  character class (\<open>ranges\<close>), \<open>matchChunk\<close> with its \<open>failed\<close> flag (after a
  mismatch it goes on checking the chunk's syntax without reading the name),
  \<open>scanChunk\<close> and \<open>Match\<close> with its search loop after a star (\<open>star_search\<close>).
  A result \<open>(matched, err)\<close> is \<open>Inl err\<close> or \<open>Inr matched\<close>; \<open>matchChunk\<close>'s
  \<open>(rest, ok, err)\<close> is \<open>Inl err\<close>, \<open>Inr None\<close> for no match, \<open>Inr (Some rest)\<close>.
  A rune is one byte here, which is what \<open>utf8.DecodeRuneInString\<close> gives on ASCII
  names and patterns; a rune is compared by its code.
  When a match fails with chunks of the pattern still unread, \<open>Match\<close> here
  answers \<open>false\<close> without looking at them; a pattern without a star is a single
  chunk and has none.
\<close>

definition Separator :: char where
  "Separator = CHR ''/''"

definition getEsc :: "string \<Rightarrow> error + (nat \<times> string)" where
  "getEsc chunk =
     (if chunk = [] \<or> hd chunk = CHR ''-'' \<or> hd chunk = CHR '']'' then Inl ErrBadPattern
      else
        (let chunk1 = (if hd chunk = CHR 0x5C then tl chunk else chunk) in
         if chunk1 = [] then Inl ErrBadPattern
         else
           (let r = of_char (hd chunk1); nchunk = tl chunk1 in
            if nchunk = [] then Inl ErrBadPattern else Inr (r, nchunk))))"

lemma getEsc_shorter: "getEsc chunk = Inr (r, rest) \<Longrightarrow> length rest < length chunk"
  by (cases chunk) (auto simp: getEsc_def Let_def split: if_splits)

lemma getEsc_nonempty: "getEsc chunk = Inr (r, rest) \<Longrightarrow> rest \<noteq> []"
  by (auto simp: getEsc_def Let_def split: if_splits)

function ranges :: "nat \<Rightarrow> string \<Rightarrow> nat \<Rightarrow> bool \<Rightarrow> error + (bool \<times> string)" where
  "ranges r chunk nrange match =
     (if chunk \<noteq> [] \<and> hd chunk = CHR '']'' \<and> nrange > 0 then Inr (match, tl chunk)
      else
        (case getEsc chunk of
           Inl err \<Rightarrow> Inl err
         | Inr (lo, chunk1) \<Rightarrow>
             (if hd chunk1 = CHR ''-''
              then
                (case getEsc (tl chunk1) of
                   Inl err \<Rightarrow> Inl err
                 | Inr (hi, chunk2) \<Rightarrow>
                     ranges r chunk2 (nrange + 1) (match \<or> (lo \<le> r \<and> r \<le> hi)))
              else ranges r chunk1 (nrange + 1) (match \<or> (lo \<le> r \<and> r \<le> lo)))))"
  by pat_completeness auto
termination
proof (relation "measure (\<lambda>(r, chunk, nrange, match). length chunk)", goal_cases)
  case 1
  show ?case by simp
next
  case (2 r chunk nrange match x2 lo chunk1 y hi chunk2)
  then show ?case
    using getEsc_shorter [of chunk lo chunk1] getEsc_shorter [of "tl chunk1" hi chunk2]
    by (cases chunk1) auto
next
  case (3 r chunk nrange match x2 lo chunk1)
  then show ?case
    using getEsc_shorter [of chunk lo chunk1] by auto
qed

declare ranges.simps [simp del]

lemma ranges_shorter: "ranges r chunk nrange match = Inr (m, rest) \<Longrightarrow> length rest < length chunk"
proof (induction r chunk nrange match rule: ranges.induct)
  case (1 r chunk nrange match)
  show ?case
  proof (cases "chunk \<noteq> [] \<and> hd chunk = CHR '']'' \<and> nrange > 0")
    case True
    with 1(3) have "rest = tl chunk" by (subst (asm) ranges.simps) simp
    with True show ?thesis by (cases chunk) auto
  next
    case False
    from 1(3) False obtain lo chunk1 where g: "getEsc chunk = Inr (lo, chunk1)"
      by (auto simp: ranges.simps [of r chunk] split: sum.splits)
    show ?thesis
    proof (cases "hd chunk1 = CHR ''-''")
      case True
      from 1(3) False g True obtain hi chunk2 where
        g2: "getEsc (tl chunk1) = Inr (hi, chunk2)"
        and r2: "ranges r chunk2 (nrange + 1) (match \<or> (lo \<le> r \<and> r \<le> hi)) = Inr (m, rest)"
        by (auto simp: ranges.simps [of r chunk] split: sum.splits)
      from 1(1) [OF False g refl True g2 refl r2]
      have "length rest < length chunk2" .
      moreover have "length chunk2 < length (tl chunk1)" using g2 by (rule getEsc_shorter)
      moreover have "length chunk1 < length chunk" using g by (rule getEsc_shorter)
      ultimately show ?thesis by (cases chunk1) auto
    next
      case F2: False
      from 1(3) False g F2 have
        r2: "ranges r chunk1 (nrange + 1) (match \<or> (lo \<le> r \<and> r \<le> lo)) = Inr (m, rest)"
        by (auto simp: ranges.simps [of r chunk] split: sum.splits)
      from 1(2) [OF False g refl F2 r2]
      have "length rest < length chunk1" .
      moreover have "length chunk1 < length chunk" using g by (rule getEsc_shorter)
      ultimately show ?thesis by simp
    qed
  qed
qed


function matchChunk_loop :: "bool \<Rightarrow> string \<Rightarrow> string \<Rightarrow> error + string option" where
  "matchChunk_loop failed0 chunk s =
     (if chunk = [] then (if failed0 then Inr None else Inr (Some s))
      else
        (let failed = (failed0 \<or> s = []) in
         if hd chunk = CHR ''[''
         then
           (let r = (if \<not> failed then of_char (hd s) else 0);
                s1 = (if \<not> failed then tl s else s);
                chunk1 = tl chunk;
                negated = (chunk1 \<noteq> [] \<and> hd chunk1 = CHR ''^'');
                chunk2 = (if negated then tl chunk1 else chunk1)
            in case ranges r chunk2 0 False of
                 Inl err \<Rightarrow> Inl err
               | Inr (match, chunk3) \<Rightarrow>
                   matchChunk_loop (failed \<or> match = negated) chunk3 s1)
         else if hd chunk = CHR ''?''
         then matchChunk_loop (failed \<or> hd s = Separator) (tl chunk)
                (if \<not> failed then tl s else s)
         else if hd chunk = CHR 0x5C
         then
           (let chunk1 = tl chunk in
            if chunk1 = [] then Inl ErrBadPattern
            else matchChunk_loop (failed \<or> hd chunk1 \<noteq> hd s) (tl chunk1)
                   (if \<not> failed then tl s else s))
         else matchChunk_loop (failed \<or> hd chunk \<noteq> hd s) (tl chunk)
                (if \<not> failed then tl s else s)))"
  by pat_completeness auto
termination
proof (relation "measure (\<lambda>(failed0, chunk, s). length chunk)", goal_cases)
  case 1
  show ?case by simp
next
  case (2 failed0 chunk s failed r s1 chunk1 negated chunk2 x2 match chunk3)
  from 2 have "ranges r chunk2 0 False = Inr (match, chunk3)" by simp
  then have "length chunk3 < length chunk2" by (rule ranges_shorter)
  moreover from 2 have "length chunk2 \<le> length chunk1" by (cases chunk1) auto
  moreover from 2 have "length chunk1 < length chunk" by (cases chunk) auto
  ultimately show ?case by simp
next
  case (3 failed0 chunk s failed)
  then show ?case by (cases chunk) auto
next
  case (4 failed0 chunk s failed chunk1)
  then show ?case by (cases chunk; cases chunk1) auto
next
  case (5 failed0 chunk s failed)
  then show ?case by (cases chunk) auto
qed

declare matchChunk_loop.simps [simp del]

definition matchChunk :: "string \<Rightarrow> string \<Rightarrow> error + string option" where
  "matchChunk chunk s = matchChunk_loop False chunk s"

fun scan :: "bool \<Rightarrow> string \<Rightarrow> string \<times> string" where
  "scan inrange [] = ([], [])"
| "scan inrange (c # p) =
     (if c = CHR 0x5C then
        (case p of
           [] \<Rightarrow> ([c], [])
         | d # p' \<Rightarrow> (case scan inrange p' of (chunk, rest) \<Rightarrow> (c # d # chunk, rest)))
      else if c = CHR ''['' then (case scan True p of (chunk, rest) \<Rightarrow> (c # chunk, rest))
      else if c = CHR '']'' then (case scan False p of (chunk, rest) \<Rightarrow> (c # chunk, rest))
      else if c = CHR ''*'' \<and> \<not> inrange then ([], c # p)
      else (case scan inrange p of (chunk, rest) \<Rightarrow> (c # chunk, rest)))"

definition scanChunk :: "string \<Rightarrow> bool \<times> string \<times> string" where
  "scanChunk pattern =
     (let star = (pattern \<noteq> [] \<and> hd pattern = CHR ''*'');
          pattern1 = dropWhile (\<lambda>c. c = CHR ''*'') pattern
      in case scan False pattern1 of (chunk, rest) \<Rightarrow> (star, chunk, rest))"

lemma scan_split: "scan inrange p = (chunk, rest) \<Longrightarrow> chunk @ rest = p"
  by (induction inrange p arbitrary: chunk rest rule: scan.induct)
     (auto split: if_splits list.splits prod.splits)

lemma scan_progress: "scan False (c # p) = (chunk, rest) \<Longrightarrow> c \<noteq> CHR ''*'' \<Longrightarrow> chunk \<noteq> []"
  by (auto split: if_splits list.splits prod.splits)

lemma scanChunk_shorter:
  assumes "scanChunk pattern = (star, chunk, rest)" and "pattern \<noteq> []"
  shows "length rest < length pattern"
proof -
  let ?p1 = "dropWhile (\<lambda>c. c = CHR ''*'') pattern"
  from assms(1) have sc: "scan False ?p1 = (chunk, rest)"
    by (auto simp: scanChunk_def Let_def split: prod.splits)
  then have split: "chunk @ rest = ?p1" by (rule scan_split)
  have le: "length ?p1 \<le> length pattern" by (rule length_dropWhile_le)
  show ?thesis
  proof (cases "hd pattern = CHR ''*''")
    case True
    with assms(2) have "length ?p1 < length pattern"
      by (cases pattern) (auto simp: less_Suc_eq_le length_dropWhile_le)
    moreover from split have "length rest \<le> length ?p1"
      by (metis length_append le_add2)
    ultimately show ?thesis by simp
  next
    case False
    with assms(2) obtain c p where p: "pattern = c # p" and c: "c \<noteq> CHR ''*''"
      by (cases pattern) auto
    then have p1: "?p1 = c # p" by simp
    with sc c have "chunk \<noteq> []" using scan_progress [of c p chunk rest] by simp
    with split p1 p show ?thesis
      by (metis length_append length_greater_0_conv less_add_same_cancel2)
  qed
qed

lemma scanChunk_shorter':
  "pattern \<noteq> [] \<Longrightarrow> (star, chunk, rest) = scanChunk pattern \<Longrightarrow> length rest < length pattern"
  using scanChunk_shorter [of pattern star chunk rest] by simp

fun star_search :: "string \<Rightarrow> bool \<Rightarrow> string \<Rightarrow> error + string option" where
  "star_search chunk final [] = Inr None"
| "star_search chunk final (c # name) =
     (if c = Separator then Inr None
      else
        (case matchChunk chunk name of
           Inr (Some t) \<Rightarrow>
             (if final \<and> t \<noteq> [] then star_search chunk final name else Inr (Some t))
         | Inl err \<Rightarrow> Inl err
         | Inr None \<Rightarrow> star_search chunk final name))"

function Match :: "string \<Rightarrow> string \<Rightarrow> error + bool" where
  "Match pattern name =
     (if pattern = [] then Inr (name = [])
      else
        (case scanChunk pattern of
           (star, chunk, rest) \<Rightarrow>
             if star \<and> chunk = [] then Inr (Separator \<notin> set name)
             else
               (case matchChunk chunk name of
                  Inl err \<Rightarrow> Inl err
                | Inr first \<Rightarrow>
                    (if first \<noteq> None \<and> (the first = [] \<or> rest \<noteq> [])
                     then Match rest (the first)
                     else if star then
                       (case star_search chunk (rest = []) name of
                          Inl err \<Rightarrow> Inl err
                        | Inr None \<Rightarrow> Inr False
                        | Inr (Some t) \<Rightarrow> Match rest t)
                     else Inr False))))"
  by pat_completeness auto
termination
proof (relation "measure (\<lambda>(pattern, name). length pattern)", goal_cases)
  case 1
  show ?case by simp
next
  case 2
  then show ?case using scanChunk_shorter' by auto
next
  case 3
  then show ?case using scanChunk_shorter' by auto
qed

declare Match.simps [simp del]


section \<open>The cleanup sweeper\<close>

text \<open>
  The file system as \<open>cleanupTmpFiles\<close> sees it, one level deep. A directory is what
  \<open>os.ReadDir\<close> gives for it: the error it fails with, if it fails, and otherwise its
  immediate children in the order returned, each with its name and its
  \<open>IsDir\<close> flag. \<open>remove_error\<close> tells, for a child's name, the error
  \<open>os.RemoveAll\<close> fails with on it (\<open>None\<close>: the removal succeeds). The file
  system maps the path of a directory to that directory, and keeps the list of the
  \<open>os.RemoveAll\<close> calls issued, each as the directory and the child's name that
  \<open>filepath.Join\<close> puts together (a name returned by \<open>os.ReadDir\<close> has no
  separator and is neither \<open>.\<close> nor \<open>..\<close>, so the joined path is that child).
  What lies below a child goes with it and is not modelled.
\<close>

record DirEntry =
  Name :: string
  IsDir :: bool

record directory =
  listing_error :: "error option"
  children :: "DirEntry list"
  remove_error :: "string \<Rightarrow> error option"

record filesystem =
  dirs :: "string \<Rightarrow> directory"
  removals :: "(string \<times> string) list"

definition ReadDir :: "filesystem \<Rightarrow> string \<Rightarrow> error + DirEntry list" where
  "ReadDir fs prefix =
     (case listing_error (dirs fs prefix) of
        Some err \<Rightarrow> Inl err
      | None \<Rightarrow> Inr (children (dirs fs prefix)))"

text \<open>
  \<open>os.RemoveAll(filepath.Join(prefix, name))\<close>: the call is recorded; when it
  succeeds the child is gone from the directory.
\<close>

definition RemoveAll :: "string \<Rightarrow> string \<Rightarrow> filesystem \<Rightarrow> error option \<times> filesystem" where
  "RemoveAll prefix name fs =
     (let d = dirs fs prefix;
          fs1 = fs\<lparr>removals := removals fs @ [(prefix, name)]\<rparr>
      in case remove_error d name of
           Some err \<Rightarrow> (Some err, fs1)
         | None \<Rightarrow>
             (None,
              fs1\<lparr>dirs := (dirs fs1)
                     (prefix := d\<lparr>children := filter (\<lambda>e. Name e \<noteq> name) (children d)\<rparr>)\<rparr>))"

text \<open>
  The matcher is \<open>filepath.Match\<close>; the sweeper takes it as a parameter, so that what
  is proved of the sweep holds whatever the matcher answers, and \<open>Match\<close> above is
  put in where the answer matters. \<open>sweep\<close> is the \<open>for _, entry := range entries\<close>
  loop, \<open>cleanupTmpFiles\<close> the function; the returned \<open>error\<close> is \<open>None\<close> for
  \<open>nil\<close>. The function's \<open>ctx\<close> argument, which its body never reads, is left
  out, and the line \<open>removing directory: ...\<close> that it logs before each
  \<open>os.RemoveAll\<close> is not kept apart from the entry of that call in \<open>removals\<close>.
\<close>

type_synonym matcher = "string \<Rightarrow> string \<Rightarrow> error + bool"

fun sweep ::
  "matcher \<Rightarrow> string \<Rightarrow> string \<Rightarrow> DirEntry list \<Rightarrow> filesystem \<Rightarrow> error option \<times> filesystem" where
  "sweep filepath_Match prefix pattern [] fs = (None, fs)"
| "sweep filepath_Match prefix pattern (entry # entries) fs =
     (case filepath_Match pattern (Name entry) of
        Inl err \<Rightarrow> (Some err, fs)
      | Inr match \<Rightarrow>
          (if IsDir entry \<and> match
           then
             (case RemoveAll prefix (Name entry) fs of
                (Some err, fs') \<Rightarrow> (Some err, fs')
              | (None, fs') \<Rightarrow> sweep filepath_Match prefix pattern entries fs')
           else sweep filepath_Match prefix pattern entries fs))"

definition cleanupTmpFiles ::
  "matcher \<Rightarrow> string \<Rightarrow> string \<Rightarrow> filesystem \<Rightarrow> error option \<times> filesystem" where
  "cleanupTmpFiles filepath_Match prefix pattern fs =
     (case ReadDir fs prefix of
        Inl err \<Rightarrow> (Some err, fs)
      | Inr entries \<Rightarrow> sweep filepath_Match prefix pattern entries fs)"

text \<open>
  What the sweep is expected to do with one entry: \<open>matching_dir\<close> holds of the
  entries it is to remove, \<open>entry_failure\<close> is the error the sweep meets at an entry
  of directory \<open>d\<close> (the matcher's, or the removal's when the entry is a matching
  directory), if any.
\<close>

definition matching_dir :: "matcher \<Rightarrow> string \<Rightarrow> DirEntry \<Rightarrow> bool" where
  "matching_dir filepath_Match pattern e =
     (IsDir e \<and> filepath_Match pattern (Name e) = Inr True)"

definition entry_failure :: "matcher \<Rightarrow> string \<Rightarrow> directory \<Rightarrow> DirEntry \<Rightarrow> error option" where
  "entry_failure filepath_Match pattern d e =
     (case filepath_Match pattern (Name e) of
        Inl err \<Rightarrow> Some err
      | Inr match \<Rightarrow> (if IsDir e \<and> match then remove_error d (Name e) else None))"

text \<open>The cleanup root of the example: the directories \<open>export123\<close> and \<open>keep\<close>.\<close>

definition example_root :: directory where
  "example_root =
     \<lparr>listing_error = None,
      children = [\<lparr>Name = ''export123'', IsDir = True\<rparr>, \<lparr>Name = ''keep'', IsDir = True\<rparr>],
      remove_error = (\<lambda>name. None)\<rparr>"

definition example_fs :: filesystem where
  "example_fs = \<lparr>dirs = (\<lambda>path. example_root), removals = []\<rparr>"


section \<open>The orchestrator: timer loop and on-demand handler\<close>

record dgraphTmp =
  prefix :: string
  pattern :: string
  cleanup :: bool

text \<open>\<open>period\<close> is a \<open>time.Duration\<close>, a number of nanoseconds.\<close>

record dgraphParams =
  endpoint :: string
  dest :: string
  accessKey :: string
  secretKey :: string
  period :: int
  dgraphTmp :: dgraphTmp

text \<open>
  The standard library functions the program calls and the model does not look into:
  \<open>url.Parse\<close> (the error, if any), \<open>json.Marshal\<close> on an \<open>ExportOutput\<close>, and the
  matcher.
\<close>

record stdlib =
  url_Parse :: "string \<Rightarrow> error option"
  json_Marshal :: "ExportOutput \<Rightarrow> error + string"
  filepath_Match :: matcher

text \<open>
  What a goroutine does that the claims are about, in the order it does it: it enters
  \<open>Client.Export\<close> and returns from it, it writes the HTTP response, it calls
  \<open>cleanupTmpFiles\<close>. A \<open>world\<close> is the file system, the events so far, and the
  lines given to \<open>klog\<close>.
\<close>

datatype event = Call_Export | Return_Export | Write_Response | Call_cleanupTmpFiles

datatype log_line = Info string | Exported_files "string list" | Error_line error

record world =
  fsys :: filesystem
  trace :: "event list"
  klog :: "log_line list"

definition fresh :: "filesystem \<Rightarrow> world" where
  "fresh fs = \<lparr>fsys = fs, trace = [], klog = []\<rparr>"

text \<open>
  The block both paths end with:
  \<^verbatim>\<open>if p.dgraphTmp.cleanup { if err := cleanupTmpFiles(...); err != nil { klog.Error(err) } }\<close>
\<close>

definition run_cleanup :: "stdlib \<Rightarrow> dgraphParams \<Rightarrow> world \<Rightarrow> world" where
  "run_cleanup lib p s =
     (if cleanup (dgraphTmp p)
      then
        (case cleanupTmpFiles (filepath_Match lib) (prefix (dgraphTmp p)) (pattern (dgraphTmp p))
                (fsys s) of
           (Some err, fs') \<Rightarrow>
             s\<lparr>fsys := fs', trace := trace s @ [Call_cleanupTmpFiles],
               klog := klog s @ [Error_line err]\<rparr>
         | (None, fs') \<Rightarrow> s\<lparr>fsys := fs', trace := trace s @ [Call_cleanupTmpFiles]\<rparr>)
      else s)"

definition call_Export ::
  "mutation \<Rightarrow> context \<Rightarrow> Client \<Rightarrow> world \<Rightarrow> (error + ExportOutput) \<times> world" where
  "call_Export Mutate ctx c s =
     (Export Mutate ctx c, s\<lparr>trace := trace s @ [Call_Export, Return_Export]\<rparr>)"

subsection \<open>exportLoop\<close>

text \<open>
  The goroutine of \<open>exportLoop\<close> as a machine driven by what reaches it. It does not
  exist before the \<open>OnStartedLeading\<close> callback calls it. On entry it builds the
  client (\<open>klog.Fatal\<close> ends the process when that fails) and the ticker
  (\<open>time.NewTicker\<close> panics on a period that is not positive); then each pass of
  \<open>for { select { ... } }\<close> takes one delivery: a tick of its ticker, answered by
  the body of the first case, or \<open>ctx.Done()\<close>, on which it returns. A \<open>Tick\<close>
  carries what the remote call made for it does. Outside \<open>Running\<close> there is no
  ticker whose tick could be received, and nothing is kept of one. The signals are
  what \<open>select\<close> delivers, in the order it delivers them; what makes a delivery
  possible is the matter of the next subsection.
\<close>

datatype loop_state = NotStarted | Running Client | Returned | Fatal error | Panicked

datatype signal = OnStartedLeading | Tick mutation | CtxDone

definition tick_body ::
  "stdlib \<Rightarrow> dgraphParams \<Rightarrow> context \<Rightarrow> mutation \<Rightarrow> Client \<Rightarrow> world \<Rightarrow> world" where
  "tick_body lib p ctx Mutate c s =
     (let s1 = s\<lparr>klog := klog s @ [Info ''make export export request'']\<rparr> in
      case call_Export Mutate ctx c s1 of
        (Inl err, s2) \<Rightarrow> s2\<lparr>klog := klog s2 @ [Error_line err]\<rparr>
      | (Inr resp, s2) \<Rightarrow>
          run_cleanup lib p (s2\<lparr>klog := klog s2 @ [Exported_files (GetFiles resp)]\<rparr>))"

fun step ::
  "stdlib \<Rightarrow> dgraphParams \<Rightarrow> context \<Rightarrow> signal \<Rightarrow> loop_state \<times> world \<Rightarrow> loop_state \<times> world" where
  "step lib p ctx OnStartedLeading (NotStarted, s) =
     (case NewClient (url_Parse lib) (endpoint p) (dest p)
             [WithAccessKey (accessKey p), WithSecretKey (secretKey p)] of
        Inl err \<Rightarrow> (Fatal err, s\<lparr>klog := klog s @ [Error_line err]\<rparr>)
      | Inr c \<Rightarrow> if period p \<le> 0 then (Panicked, s) else (Running c, s))"
| "step lib p ctx (Tick Mutate) (Running c, s) = (Running c, tick_body lib p ctx Mutate c s)"
| "step lib p ctx CtxDone (Running c, s) = (Returned, s)"
| "step lib p ctx sg st = st"

definition exportLoop ::
  "stdlib \<Rightarrow> dgraphParams \<Rightarrow> context \<Rightarrow> signal list \<Rightarrow> loop_state \<times> world \<Rightarrow> loop_state \<times> world" where
  "exportLoop lib p ctx sigs st = foldl (\<lambda>st sg. step lib p ctx sg st) st sigs"

subsection \<open>Leadership, the ticker and select\<close>

text \<open>
  What decides which deliveries reach the loop. \<open>main\<close> hands \<open>le.Run(ctx)\<close> its
  cancellable context; when the elector gains leadership it derives a context of its
  own with \<open>context.WithCancel\<close> and calls \<open>OnStartedLeading\<close> with it, which is
  the call of \<open>exportLoop\<close>; when leadership is lost the elector cancels that
  context and calls \<open>OnStoppedLeading\<close>, which only logs. The program keeps no
  other record of leadership: the loop learns of the loss through \<open>ctx.Done()\<close>
  alone. \<open>Run\<close> is called once, so leadership is gained at most once in the life
  of the process.

  The ticker made on entry of the loop is never stopped; its channel holds one tick,
  and a tick that fires while one waits is dropped. A pass of
  \<open>select\<close> takes the tick when only a tick waits, \<open>ctx.Done()\<close> when only the
  context is done, and either one when both are ready: Go chooses among the ready
  cases at random. So \<open>Select_tick\<close> is possible whenever the loop runs and a tick
  waits, \<open>Select_done\<close> whenever the loop runs and its context is done, and an
  occurrence that is not possible leaves the process as it is.
\<close>

record process =
  leader :: bool
  loop_ctx :: "context"
  tick_waiting :: bool
  loop :: "loop_state \<times> world"

datatype occurrence =
  Leadership_gained | Leadership_lost | Ticker_fires | Select_tick mutation | Select_done

definition initial_process :: "filesystem \<Rightarrow> process" where
  "initial_process fs =
     \<lparr>leader = False, loop_ctx = WithCancel Background False, tick_waiting = False,
      loop = (NotStarted, fresh fs)\<rparr>"

fun cancel_ctx :: "context \<Rightarrow> context" where
  "cancel_ctx Background = Background"
| "cancel_ctx (WithCancel parent cancelled) = WithCancel parent True"

fun running :: "loop_state \<Rightarrow> bool" where
  "running (Running c) = True"
| "running l = False"

fun ticker_made :: "loop_state \<Rightarrow> bool" where
  "ticker_made (Running c) = True"
| "ticker_made Returned = True"
| "ticker_made l = False"

fun pstep :: "stdlib \<Rightarrow> dgraphParams \<Rightarrow> occurrence \<Rightarrow> process \<Rightarrow> process" where
  "pstep lib p Leadership_gained st =
     (if \<not> leader st \<and> fst (loop st) = NotStarted
      then
        (let ctx = WithCancel (loop_ctx st) False in
         st\<lparr>leader := True, loop_ctx := ctx,
            loop := step lib p ctx OnStartedLeading (loop st)\<rparr>)
      else st)"
| "pstep lib p Leadership_lost st =
     (if leader st then st\<lparr>leader := False, loop_ctx := cancel_ctx (loop_ctx st)\<rparr> else st)"
| "pstep lib p Ticker_fires st =
     (if ticker_made (fst (loop st)) then st\<lparr>tick_waiting := True\<rparr> else st)"
| "pstep lib p (Select_tick Mutate) st =
     (if running (fst (loop st)) \<and> tick_waiting st
      then st\<lparr>tick_waiting := False,
              loop := step lib p (loop_ctx st) (Tick Mutate) (loop st)\<rparr>
      else st)"
| "pstep lib p Select_done st =
     (if running (fst (loop st)) \<and> Done (loop_ctx st)
      then st\<lparr>loop := step lib p (loop_ctx st) CtxDone (loop st)\<rparr>
      else st)"

definition process_run ::
  "stdlib \<Rightarrow> dgraphParams \<Rightarrow> occurrence list \<Rightarrow> process \<Rightarrow> process" where
  "process_run lib p occs st = foldl (\<lambda>st oc. pstep lib p oc st) st occs"

text \<open>
  The ticks that \<open>select\<close> takes in the course of a run: the occurrences
  \<open>Select_tick\<close> that find the loop running and a tick waiting.
\<close>

fun ticks_taken :: "stdlib \<Rightarrow> dgraphParams \<Rightarrow> occurrence list \<Rightarrow> process \<Rightarrow> nat" where
  "ticks_taken lib p [] st = 0"
| "ticks_taken lib p (oc # occs) st =
     (case oc of
        Select_tick Mutate \<Rightarrow> (if running (fst (loop st)) \<and> tick_waiting st then 1 else 0)
      | _ \<Rightarrow> 0)
     + ticks_taken lib p occs (pstep lib p oc st)"

definition invocations :: "process \<Rightarrow> nat" where
  "invocations st = count_list (trace (snd (loop st))) Call_Export"

subsection \<open>apiExportHandler\<close>

text \<open>
  The response writer: the status code once the header is written (a first write
  without \<open>WriteHeader\<close> sends 200) and the bytes of the body.
\<close>

record ResponseWriter =
  Status :: "nat option"
  Body :: string

record Request =
  Method :: string

definition Fprintln :: "ResponseWriter \<Rightarrow> string \<Rightarrow> ResponseWriter" where
  "Fprintln w text =
     w\<lparr>Status := (case Status w of None \<Rightarrow> Some 200 | Some code \<Rightarrow> Some code),
       Body := Body w @ text @ [CHR 0x0A]\<rparr>"

definition http_Error :: "ResponseWriter \<Rightarrow> string \<Rightarrow> nat \<Rightarrow> ResponseWriter" where
  "http_Error w text code =
     Fprintln (w\<lparr>Status := (case Status w of None \<Rightarrow> Some code | Some code' \<Rightarrow> Some code')\<rparr>) text"

definition respond :: "ResponseWriter \<Rightarrow> world \<Rightarrow> ResponseWriter \<times> world" where
  "respond w s = (w, s\<lparr>trace := trace s @ [Write_Response]\<rparr>)"

text \<open>
  The \<open>switch r.Method\<close> of the handler: the flag tells whether the handler has
  returned inside it (every error branch of the \<open>POST\<close> case does), in which case
  the code after the switch is not reached.
\<close>

definition method_switch ::
  "stdlib \<Rightarrow> dgraphParams \<Rightarrow> context \<Rightarrow> mutation \<Rightarrow> Request \<Rightarrow> ResponseWriter \<times> world \<Rightarrow>
     bool \<times> ResponseWriter \<times> world" where
  "method_switch lib p ctx Mutate r ws =
     (case ws of (w, s) \<Rightarrow>
        if Method r = ''POST''
        then
          (case NewClient (url_Parse lib) (endpoint p) (dest p)
                  [WithAccessKey (accessKey p), WithSecretKey (secretKey p)] of
             Inl err \<Rightarrow> (True, respond (Fprintln w (Error err)) s)
           | Inr c \<Rightarrow>
               (case call_Export Mutate ctx c s of
                  (Inl err, s1) \<Rightarrow> (True, respond (Fprintln w (Error err)) s1)
                | (Inr resp, s1) \<Rightarrow>
                    (case json_Marshal lib resp of
                       Inl err \<Rightarrow> (True, respond (Fprintln w (Error err)) s1)
                     | Inr b \<Rightarrow> (False, respond (Fprintln w b) s1))))
        else (False, respond (http_Error w ''Method not allowed'' 405) s))"

definition apiExportHandler ::
  "stdlib \<Rightarrow> dgraphParams \<Rightarrow> context \<Rightarrow> mutation \<Rightarrow> Request \<Rightarrow> ResponseWriter \<times> world \<Rightarrow>
     ResponseWriter \<times> world" where
  "apiExportHandler lib p ctx Mutate r ws =
     (case method_switch lib p ctx Mutate r ws of
        (True, w, s) \<Rightarrow> (w, s)
      | (False, w, s) \<Rightarrow> (w, run_cleanup lib p s))"

subsection \<open>Goroutines side by side\<close>

text \<open>
  \<open>main\<close> starts the HTTP server with \<open>go params.apiHandler(ctx, cancel)\<close> and the
  server runs each request's handler in a goroutine of its own, beside the one of
  \<open>exportLoop\<close>. Nothing in the program orders the events of two goroutines, so a
  run of the process is an interleaving of their traces (\<open>shuffles\<close> for two of them,
  \<open>interleavings\<close> for any number). \<open>active\<close> counts the calls of \<open>Export\<close>
  entered and not yet returned at the end of a trace, \<open>peak a\<close> the largest such
  count at any instant of a trace that starts with \<open>a\<close> calls active.
\<close>

datatype goroutine = Loop | Handler nat

type_synonym gevent = "goroutine \<times> event"

fun delta :: "event \<Rightarrow> int" where
  "delta Call_Export = 1"
| "delta Return_Export = - 1"
| "delta ev = 0"

fun active :: "gevent list \<Rightarrow> int" where
  "active [] = 0"
| "active ((g, ev) # tr) = delta ev + active tr"

fun peak :: "int \<Rightarrow> gevent list \<Rightarrow> int" where
  "peak a [] = a"
| "peak a ((g, ev) # tr) = max a (peak (a + delta ev) tr)"

definition max_active :: "gevent list \<Rightarrow> int" where
  "max_active tr = peak 0 tr"

fun interleavings :: "'a list list \<Rightarrow> 'a list set" where
  "interleavings [] = {[]}"
| "interleavings (t # ts) = (\<Union>u\<in>interleavings ts. shuffles t u)"

definition loop_events ::
  "stdlib \<Rightarrow> dgraphParams \<Rightarrow> context \<Rightarrow> signal list \<Rightarrow> filesystem \<Rightarrow> gevent list" where
  "loop_events lib p ctx sigs fs =
     map (Pair Loop) (trace (snd (exportLoop lib p ctx sigs (NotStarted, fresh fs))))"

text \<open>
  One request as the handler meets it: the request, what the remote call made for it
  does, and the file system its sweep finds.
\<close>

type_synonym arrival = "Request \<times> mutation \<times> filesystem"

definition handler_events ::
  "stdlib \<Rightarrow> dgraphParams \<Rightarrow> context \<Rightarrow> nat \<Rightarrow> arrival \<Rightarrow> gevent list" where
  "handler_events lib p ctx i a =
     (case a of (r, Mutate, fs) \<Rightarrow>
        map (Pair (Handler i))
          (trace (snd (apiExportHandler lib p ctx Mutate r
             (\<lparr>Status = None, Body = []\<rparr>, fresh fs)))))"

fun handlers_events ::
  "stdlib \<Rightarrow> dgraphParams \<Rightarrow> context \<Rightarrow> nat \<Rightarrow> arrival list \<Rightarrow> gevent list list" where
  "handlers_events lib p ctx i [] = []"
| "handlers_events lib p ctx i (a # as) =
     handler_events lib p ctx i a # handlers_events lib p ctx (Suc i) as"


section \<open>Scenarios\<close>

text \<open>
  Concrete parameters, remotes and requests for the examples below. In \<open>lib0\<close>
  every endpoint parses, \<open>json.Marshal\<close> answers with a fixed text that stands
  for the serialised output, and the matcher is \<open>Match\<close>.
\<close>

definition params0 :: dgraphParams where
  "params0 =
     \<lparr>endpoint = ''http://localhost:8080/admin'', dest = ''s3://bucket/dgraph'',
      accessKey = ''key'', secretKey = ''secret'', period = 3600000000000,
      dgraphTmp = \<lparr>prefix = ''/tmp'', pattern = ''export[0-9]+'', cleanup = False\<rparr>\<rparr>"

definition params_cleanup :: dgraphParams where
  "params_cleanup = params0\<lparr>dgraphTmp := (dgraphTmp params0)\<lparr>cleanup := True\<rparr>\<rparr>"

definition client0 :: Client where
  "client0 =
     \<lparr>cli = ''http://localhost:8080/admin'',
      inp = \<lparr>Format = ''rdf'', Destination = ''s3://bucket/dgraph'', AccessKey = ''key'',
             SecretKey = ''secret'', SessionToken = [], Anonymous = False, Namespace = 0\<rparr>\<rparr>"

definition out_ok :: ExportOutput where
  "out_ok =
     \<lparr>Response = \<lparr>Message = ''Export completed.'', Code = ''Success''\<rparr>,
      ExportedFiles = [''f1.rdf'', ''f2.rdf'']\<rparr>"

definition out_rejected :: ExportOutput where
  "out_rejected =
     \<lparr>Response = \<lparr>Message = ''export already in progress'', Code = ''Error''\<rparr>,
      ExportedFiles = []\<rparr>"

definition remote_ok :: mutation where
  "remote_ok ep ctx input = Inr out_ok"

definition remote_rejects :: mutation where
  "remote_rejects ep ctx input = Inr out_rejected"

definition remote_down :: mutation where
  "remote_down ep ctx input = Inl (Foreign ''connection refused'')"

text \<open>A transport that heeds its context: under a context that is done it gives up.\<close>

definition remote_heeding :: mutation where
  "remote_heeding ep ctx input =
     (if Done ctx then Inl (Foreign ''context canceled'') else Inr out_ok)"

definition ctx_live :: "context" where
  "ctx_live = WithCancel Background False"

definition ctx_cancelled :: "context" where
  "ctx_cancelled = WithCancel Background True"

definition lib0 :: stdlib where
  "lib0 =
     \<lparr>url_Parse = (\<lambda>u. None),
      json_Marshal = (\<lambda>out. Inr ''{json}''),
      filepath_Match = Match\<rparr>"

definition post_request :: Request where
  "post_request = \<lparr>Method = ''POST''\<rparr>"

definition get_request :: Request where
  "get_request = \<lparr>Method = ''GET''\<rparr>"

definition w0 :: ResponseWriter where
  "w0 = \<lparr>Status = None, Body = []\<rparr>"

text \<open>
  A cleanup root with three directories and a file, where removing \<open>export2+\<close>
  fails.
\<close>

definition demo_root :: directory where
  "demo_root =
     \<lparr>listing_error = None,
      children = [\<lparr>Name = ''export1+'', IsDir = True\<rparr>, \<lparr>Name = ''export2+'', IsDir = True\<rparr>,
                  \<lparr>Name = ''export3+'', IsDir = False\<rparr>, \<lparr>Name = ''keep'', IsDir = True\<rparr>],
      remove_error = (\<lambda>name. if name = ''export2+'' then Some (Foreign ''permission denied'') else None)\<rparr>"

definition demo_fs :: filesystem where
  "demo_fs = \<lparr>dirs = (\<lambda>path. demo_root), removals = []\<rparr>"

text \<open>The same root when it cannot be listed.\<close>

definition unreadable_fs :: filesystem where
  "unreadable_fs =
     \<lparr>dirs = (\<lambda>path. demo_root\<lparr>listing_error := Some (Foreign ''no such file or directory'')\<rparr>),
      removals = []\<rparr>"

text \<open>
  A world in which one call of \<open>Export\<close> (the timer's) is entered and not returned.
\<close>

definition world_in_flight :: world where
  "world_in_flight = (fresh example_fs)\<lparr>trace := [Call_Export]\<rparr>"

text \<open>
  The process once it leads, the client built and the loop running, with no tick
  waiting yet.
\<close>

definition proc_led :: process where
  "proc_led =
     \<lparr>leader = True, loop_ctx = WithCancel (WithCancel Background False) False,
      tick_waiting = False, loop = (Running client0, fresh example_fs)\<rparr>"

section \<open>Properties of the export client\<close>

text \<open>
  C6. \<open>Export\<close> returns an \<open>ExportOutput\<close> exactly when the mutation succeeds and the
  response code is \<open>Success\<close>, and it is then the remote's output with its list of files;
  when the remote reports another code, the error's text is built from that code and
  message as they came; when the call itself fails, its error is returned as it is.
\<close>

theorem C6_Export_outcomes:
  "(\<forall>out. Export Mutate ctx c = Inr out \<longleftrightarrow>
      Mutate (cli c) Background (inp c) = Inr out \<and> Code (Response out) = ''Success'') \<and>
   (\<forall>out. Mutate (cli c) Background (inp c) = Inr out \<and> Code (Response out) \<noteq> ''Success'' \<longrightarrow>
      Export Mutate ctx c =
        Inl (Errorf (''export finished with unseccessfull code '' @ [CHR 0x22]
               @ Code (Response out) @ [CHR 0x22] @ '': '' @ Message (Response out)))) \<and>
   (\<forall>err. Mutate (cli c) Background (inp c) = Inl err \<longrightarrow> Export Mutate ctx c = Inl err)"
  by (auto simp: Export_def Let_def unsuccessful_text_def split: sum.splits)

theorem C6_Export_outcomes_witness:
  "Export remote_ok ctx_live client0 = Inr out_ok \<and>
   Export remote_rejects ctx_live client0 =
     Inl (Errorf (''export finished with unseccessfull code '' @ [CHR 0x22] @ ''Error''
            @ [CHR 0x22] @ '': export already in progress'')) \<and>
   Export remote_down ctx_live client0 = Inl (Foreign ''connection refused'')"
proof -
  have ok: "remote_ok (cli client0) Background (inp client0) = Inr out_ok \<and>
      Code (Response out_ok) = ''Success''"
    by (simp add: remote_ok_def out_ok_def)
  have rej: "remote_rejects (cli client0) Background (inp client0) = Inr out_rejected \<and>
      Code (Response out_rejected) \<noteq> ''Success''"
    by (simp add: remote_rejects_def out_rejected_def)
  have down: "remote_down (cli client0) Background (inp client0) = Inl (Foreign ''connection refused'')"
    by (simp add: remote_down_def)
  from C6_Export_outcomes [of remote_ok ctx_live client0] ok
  have 1: "Export remote_ok ctx_live client0 = Inr out_ok" by blast
  from C6_Export_outcomes [of remote_rejects ctx_live client0] rej
  have 2: "Export remote_rejects ctx_live client0 =
      Inl (Errorf (''export finished with unseccessfull code '' @ [CHR 0x22]
             @ Code (Response out_rejected) @ [CHR 0x22] @ '': '' @ Message (Response out_rejected)))"
    by blast
  from C6_Export_outcomes [of remote_down ctx_live client0] down
  have 3: "Export remote_down ctx_live client0 = Inl (Foreign ''connection refused'')" by blast
  from 1 2 3 show ?thesis by (simp add: out_rejected_def)
qed

text \<open>
  The context given to \<open>Export\<close> has no part in its result.
\<close>

lemma Export_ignores_ctx: "Export Mutate ctx c = Export Mutate ctx' c"
  by (simp add: Export_def)

text \<open>
  C5. The remote call is not issued under the context given to \<open>Export\<close>: with a
  transport that gives up under a cancelled context, \<open>Export\<close> called with a
  cancelled context still carries the call through and returns the remote's output.
\<close>

theorem C5_Export_under_cancelled_ctx:
  "Done ctx_cancelled \<and>
   remote_heeding (cli client0) ctx_cancelled (inp client0) = Inl (Foreign ''context canceled'') \<and>
   Export remote_heeding ctx_cancelled client0 = Inr out_ok"
  by (simp add: ctx_cancelled_def remote_heeding_def Export_def Let_def out_ok_def)

section \<open>Properties of the cleanup sweeper\<close>

lemma RemoveAll_other: "RemoveAll root name fs = (r, fs') \<Longrightarrow> d \<noteq> root \<Longrightarrow> dirs fs' d = dirs fs d"
  by (auto simp: RemoveAll_def Let_def split: option.splits)

lemma RemoveAll_removals: "RemoveAll root name fs = (r, fs') \<Longrightarrow> removals fs' = removals fs @ [(root, name)]"
  by (auto simp: RemoveAll_def Let_def split: option.splits)

lemma RemoveAll_remove_error:
  "RemoveAll root name fs = (r, fs') \<Longrightarrow> remove_error (dirs fs' root) = remove_error (dirs fs root)"
  by (auto simp: RemoveAll_def Let_def split: option.splits)

lemma RemoveAll_result: "RemoveAll root name fs = (r, fs') \<Longrightarrow> r = remove_error (dirs fs root) name"
  by (auto simp: RemoveAll_def Let_def split: option.splits)

lemma RemoveAll_children_ok:
  "RemoveAll root name fs = (None, fs') \<Longrightarrow>
   children (dirs fs' root) = filter (\<lambda>e. Name e \<noteq> name) (children (dirs fs root))"
  by (auto simp: RemoveAll_def Let_def split: option.splits)

lemma RemoveAll_children_fail:
  "RemoveAll root name fs = (Some err, fs') \<Longrightarrow> children (dirs fs' root) = children (dirs fs root)"
  by (auto simp: RemoveAll_def Let_def split: option.splits)

lemma sweep_other_dirs:
  "sweep m root pat es fs = (r, fs') \<Longrightarrow> d \<noteq> root \<Longrightarrow> dirs fs' d = dirs fs d"
proof (induction es arbitrary: fs)
  case Nil
  then show ?case by simp
next
  case (Cons e es)
  show ?case
  proof (cases "m pat (Name e)")
    case (Inl err)
    with Cons.prems show ?thesis by simp
  next
    case (Inr match)
    show ?thesis
    proof (cases "IsDir e \<and> match")
      case False
      with Cons Inr show ?thesis by auto
    next
      case True
      obtain r1 fs1 where rm: "RemoveAll root (Name e) fs = (r1, fs1)" by (cases "RemoveAll root (Name e) fs")
      have o: "dirs fs1 d = dirs fs d" using rm Cons.prems(2) by (rule RemoveAll_other)
      show ?thesis
      proof (cases r1)
        case None
        with Cons.prems Inr True rm have "sweep m root pat es fs1 = (r, fs')" by simp
        from Cons.IH [OF this Cons.prems(2)] o show ?thesis by simp
      next
        case (Some err)
        with Cons.prems Inr True rm have "fs' = fs1" by simp
        with o show ?thesis by simp
      qed
    qed
  qed
qed

lemma sweep_shape:
  "sweep m root pat es fs = (r, fs') \<Longrightarrow>
   \<exists>tried gone. set tried \<subseteq> {e \<in> set es. matching_dir m pat e} \<and> set gone \<subseteq> set tried \<and>
     removals fs' = removals fs @ map (\<lambda>e. (root, Name e)) tried \<and>
     children (dirs fs' root) = filter (\<lambda>x. Name x \<notin> Name ` set gone) (children (dirs fs root))"
proof (induction es arbitrary: fs)
  case Nil
  then have "fs' = fs" by simp
  then show ?case by (intro exI [of _ "[]"]) simp
next
  case (Cons e es)
  show ?case
  proof (cases "m pat (Name e)")
    case (Inl err)
    with Cons.prems have "fs' = fs" by simp
    then show ?thesis by (intro exI [of _ "[]"]) simp
  next
    case (Inr match)
    show ?thesis
    proof (cases "IsDir e \<and> match")
      case False
      with Cons.prems Inr have "sweep m root pat es fs = (r, fs')" by auto
      from Cons.IH [OF this] obtain tried gone where
        "set tried \<subseteq> {e \<in> set es. matching_dir m pat e}" "set gone \<subseteq> set tried"
        "removals fs' = removals fs @ map (\<lambda>e. (root, Name e)) tried"
        "children (dirs fs' root) = filter (\<lambda>x. Name x \<notin> Name ` set gone) (children (dirs fs root))"
        by blast
      then show ?thesis by (intro exI [of _ tried] exI [of _ gone]) auto
    next
      case True
      then have md: "matching_dir m pat e" using Inr by (simp add: matching_dir_def)
      obtain r1 fs1 where rm: "RemoveAll root (Name e) fs = (r1, fs1)" by (cases "RemoveAll root (Name e) fs")
      note rl = RemoveAll_removals [OF rm]
      show ?thesis
      proof (cases r1)
        case None
        with Cons.prems Inr True rm have "sweep m root pat es fs1 = (r, fs')" by simp
        from Cons.IH [OF this] obtain tried gone where t:
          "set tried \<subseteq> {e \<in> set es. matching_dir m pat e}" "set gone \<subseteq> set tried"
          "removals fs' = removals fs1 @ map (\<lambda>e. (root, Name e)) tried"
          "children (dirs fs' root) = filter (\<lambda>x. Name x \<notin> Name ` set gone) (children (dirs fs1 root))"
          by blast
        from rm None have c1: "children (dirs fs1 root) = filter (\<lambda>x. Name x \<noteq> Name e) (children (dirs fs root))"
          by (simp add: RemoveAll_children_ok)
        have "children (dirs fs' root) = filter (\<lambda>x. Name x \<notin> Name ` set (e # gone)) (children (dirs fs root))"
          unfolding t(4) c1 by (auto intro: filter_cong)
        with t rl md show ?thesis
          by (intro exI [of _ "e # tried"] exI [of _ "e # gone"]) auto
      next
        case (Some err)
        with Cons.prems Inr True rm have "fs' = fs1" by simp
        with rm Some rl md show ?thesis
          by (intro exI [of _ "[e]"] exI [of _ "[]"]) (auto simp: RemoveAll_children_fail)
      qed
    qed
  qed
qed


lemma entry_failure_cong:
  "remove_error d1 = remove_error d2 \<Longrightarrow> entry_failure m pat d1 x = entry_failure m pat d2 x"
  by (simp add: entry_failure_def split: sum.splits)

lemma sweep_pass_prefix:
  assumes "\<forall>x\<in>set pre. entry_failure m pat (dirs fs root) x = None"
  shows "\<exists>fs1. sweep m root pat (pre @ rest) fs = sweep m root pat rest fs1 \<and>
           removals fs1 = removals fs @ map (\<lambda>x. (root, Name x)) (filter (matching_dir m pat) pre) \<and>
           children (dirs fs1 root) =
             filter (\<lambda>x. Name x \<notin> Name ` set (filter (matching_dir m pat) pre)) (children (dirs fs root)) \<and>
           remove_error (dirs fs1 root) = remove_error (dirs fs root)"
  using assms
proof (induction pre arbitrary: fs)
  case Nil
  show ?case by (intro exI [of _ fs]) simp
next
  case (Cons e pre)
  from Cons.prems have e: "entry_failure m pat (dirs fs root) e = None"
    and pre: "\<forall>x\<in>set pre. entry_failure m pat (dirs fs root) x = None" by simp_all
  from e obtain match where mt: "m pat (Name e) = Inr match"
    by (auto simp: entry_failure_def split: sum.splits)
  show ?case
  proof (cases "IsDir e \<and> match")
    case False
    then have nm: "\<not> matching_dir m pat e" using mt by (auto simp: matching_dir_def)
    from Cons.IH [OF pre] obtain fs1 where
      "sweep m root pat (pre @ rest) fs = sweep m root pat rest fs1"
      "removals fs1 = removals fs @ map (\<lambda>x. (root, Name x)) (filter (matching_dir m pat) pre)"
      "children (dirs fs1 root) =
         filter (\<lambda>x. Name x \<notin> Name ` set (filter (matching_dir m pat) pre)) (children (dirs fs root))"
      "remove_error (dirs fs1 root) = remove_error (dirs fs root)" by blast
    with False mt nm show ?thesis by (intro exI [of _ fs1]) auto
  next
    case True
    then have md: "matching_dir m pat e" using mt by (simp add: matching_dir_def)
    from e mt True have re: "remove_error (dirs fs root) (Name e) = None"
      by (simp add: entry_failure_def)
    obtain r1 fs0 where rm: "RemoveAll root (Name e) fs = (r1, fs0)"
      by (cases "RemoveAll root (Name e) fs")
    with re have r1: "r1 = None" using RemoveAll_result [OF rm] by simp
    have re0: "remove_error (dirs fs0 root) = remove_error (dirs fs root)"
      using rm by (rule RemoveAll_remove_error)
    have pre0: "\<forall>x\<in>set pre. entry_failure m pat (dirs fs0 root) x = None"
      using pre entry_failure_cong [OF re0] by simp
    from Cons.IH [OF pre0] obtain fs1 where f:
      "sweep m root pat (pre @ rest) fs0 = sweep m root pat rest fs1"
      "removals fs1 = removals fs0 @ map (\<lambda>x. (root, Name x)) (filter (matching_dir m pat) pre)"
      "children (dirs fs1 root) =
         filter (\<lambda>x. Name x \<notin> Name ` set (filter (matching_dir m pat) pre)) (children (dirs fs0 root))"
      "remove_error (dirs fs1 root) = remove_error (dirs fs0 root)" by blast
    have s: "sweep m root pat ((e # pre) @ rest) fs = sweep m root pat rest fs1"
      using mt True rm r1 f(1) by simp
    have c0: "children (dirs fs0 root) = filter (\<lambda>x. Name x \<noteq> Name e) (children (dirs fs root))"
      using rm r1 by (simp add: RemoveAll_children_ok)
    have c: "children (dirs fs1 root) =
         filter (\<lambda>x. Name x \<notin> Name ` set (filter (matching_dir m pat) (e # pre))) (children (dirs fs root))"
      unfolding f(3) c0 using md by (auto intro: filter_cong)
    have r: "removals fs1 = removals fs @ map (\<lambda>x. (root, Name x)) (filter (matching_dir m pat) (e # pre))"
      using f(2) RemoveAll_removals [OF rm] md by simp
    from s c r f(4) re0 show ?thesis by (intro exI [of _ fs1]) simp
  qed
qed

lemma sweep_fail_here:
  assumes "entry_failure m pat (dirs fs root) e = Some err"
  shows "fst (sweep m root pat (e # post) fs) = Some err \<and>
         removals (snd (sweep m root pat (e # post) fs)) =
           removals fs @ map (\<lambda>x. (root, Name x)) (filter (matching_dir m pat) [e]) \<and>
         children (dirs (snd (sweep m root pat (e # post) fs)) root) = children (dirs fs root)"
proof (cases "m pat (Name e)")
  case (Inl err')
  with assms show ?thesis by (simp add: entry_failure_def matching_dir_def)
next
  case (Inr match)
  with assms have t: "IsDir e \<and> match" and re: "remove_error (dirs fs root) (Name e) = Some err"
    by (auto simp: entry_failure_def split: if_splits)
  obtain r1 fs0 where rm: "RemoveAll root (Name e) fs = (r1, fs0)"
    by (cases "RemoveAll root (Name e) fs")
  with re have r1: "r1 = Some err" using RemoveAll_result [OF rm] by simp
  from Inr t rm r1 have "sweep m root pat (e # post) fs = (Some err, fs0)" by simp
  moreover have "matching_dir m pat e" using Inr t by (simp add: matching_dir_def)
  ultimately show ?thesis
    using RemoveAll_removals [OF rm] RemoveAll_children_fail [of root "Name e" fs err fs0] rm r1 by simp
qed


text \<open>The configured pattern on the names of the scenarios.\<close>

lemma Match_demo:
  "Match ''export[0-9]+'' ''export1+'' = Inr True"
  "Match ''export[0-9]+'' ''export2+'' = Inr True"
  "Match ''export[0-9]+'' ''export3+'' = Inr True"
  "Match ''export[0-9]+'' ''keep'' = Inr False"
  by code_simp+

text \<open>
  C3. With the cleanup root holding the directories \<open>export123\<close> and \<open>keep\<close> and the
  configured pattern \<^verbatim>\<open>export[0-9]+\<close>, the matcher the sweeper uses does not match
  \<open>export123\<close> (the pattern is a shell pattern: one digit, then a literal \<open>+\<close>, as in
  \<open>export1+\<close>), and the sweep returns no error, calls no removal and leaves both
  directories.
\<close>

theorem C3_sweep_keeps_export123:
  "Match ''export[0-9]+'' ''export123'' = Inr False \<and>
   Match ''export[0-9]+'' ''export1+'' = Inr True \<and>
   fst (cleanupTmpFiles Match ''/tmp'' ''export[0-9]+'' example_fs) = None \<and>
   children (dirs (snd (cleanupTmpFiles Match ''/tmp'' ''export[0-9]+'' example_fs)) ''/tmp'') =
     [\<lparr>Name = ''export123'', IsDir = True\<rparr>, \<lparr>Name = ''keep'', IsDir = True\<rparr>] \<and>
   removals (snd (cleanupTmpFiles Match ''/tmp'' ''export[0-9]+'' example_fs)) = []"
proof -
  have a: "Match ''export[0-9]+'' ''export123'' = Inr False" by code_simp
  have b: "Match ''export[0-9]+'' ''keep'' = Inr False" by code_simp
  have c: "Match ''export[0-9]+'' ''export1+'' = Inr True" by code_simp
  show ?thesis
    by (simp add: a b c cleanupTmpFiles_def ReadDir_def example_fs_def example_root_def)
qed

text \<open>
  C7. Whatever the cleanup root holds (its names distinct, as a directory's are) and
  whatever the matcher answers, after a sweep every entry that is a file and every
  directory whose name does not match is still there; the entries left are the old
  ones in their order; no other directory is touched; and every removal the sweep
  calls is of a child of the root that is a directory and matches.
\<close>

theorem C7_cleanup_scoping:
  assumes "distinct (map Name (children (dirs fs root)))"
    and "cleanupTmpFiles m root pat fs = (r, fs')"
  shows "(\<forall>e\<in>set (children (dirs fs root)).
            \<not> IsDir e \<or> m pat (Name e) \<noteq> Inr True \<longrightarrow> e \<in> set (children (dirs fs' root))) \<and>
         children (dirs fs' root) =
           filter (\<lambda>e. e \<in> set (children (dirs fs' root))) (children (dirs fs root)) \<and>
         (\<forall>d. d \<noteq> root \<longrightarrow> dirs fs' d = dirs fs d) \<and>
         (\<exists>tried. set tried \<subseteq> {e \<in> set (children (dirs fs root)). IsDir e \<and> m pat (Name e) = Inr True} \<and>
            removals fs' = removals fs @ map (\<lambda>e. (root, Name e)) tried)"
proof (cases "listing_error (dirs fs root)")
  case (Some err)
  with assms(2) have "fs' = fs" by (simp add: cleanupTmpFiles_def ReadDir_def)
  then show ?thesis by (auto intro: exI [of _ "[]"])
next
  case None
  let ?cs = "children (dirs fs root)"
  from None assms(2) have sw: "sweep m root pat ?cs fs = (r, fs')"
    by (simp add: cleanupTmpFiles_def ReadDir_def)
  from sweep_shape [OF sw] obtain tried gone where t:
    "set tried \<subseteq> {e \<in> set ?cs. matching_dir m pat e}" "set gone \<subseteq> set tried"
    "removals fs' = removals fs @ map (\<lambda>e. (root, Name e)) tried"
    "children (dirs fs' root) = filter (\<lambda>x. Name x \<notin> Name ` set gone) ?cs"
    by blast
  have inj: "\<And>x y. x \<in> set ?cs \<Longrightarrow> y \<in> set ?cs \<Longrightarrow> Name x = Name y \<Longrightarrow> x = y"
    using assms(1) by (meson distinct_map inj_onD)
  have keep: "\<forall>e\<in>set ?cs. \<not> IsDir e \<or> m pat (Name e) \<noteq> Inr True \<longrightarrow> e \<in> set (children (dirs fs' root))"
  proof (intro ballI impI)
    fix e assume e: "e \<in> set ?cs" and n: "\<not> IsDir e \<or> m pat (Name e) \<noteq> Inr True"
    have "Name e \<notin> Name ` set gone"
    proof
      assume "Name e \<in> Name ` set gone"
      then obtain g where g: "g \<in> set gone" "Name g = Name e" by auto
      with t(1,2) have "g \<in> set ?cs" "matching_dir m pat g" by auto
      with inj [OF e this(1)] g(2) have "matching_dir m pat e" by simp
      with n show False by (simp add: matching_dir_def)
    qed
    with e t(4) show "e \<in> set (children (dirs fs' root))" by simp
  qed
  have same: "children (dirs fs' root) = filter (\<lambda>e. e \<in> set (children (dirs fs' root))) ?cs"
    unfolding t(4) by (auto intro: filter_cong)
  have others: "\<forall>d. d \<noteq> root \<longrightarrow> dirs fs' d = dirs fs d"
    using sweep_other_dirs [OF sw] by blast
  have tr: "\<exists>tried. set tried \<subseteq> {e \<in> set ?cs. IsDir e \<and> m pat (Name e) = Inr True} \<and>
            removals fs' = removals fs @ map (\<lambda>e. (root, Name e)) tried"
    using t(1,3) by (intro exI [of _ tried]) (auto simp: matching_dir_def)
  from keep same others tr show ?thesis by blast
qed

theorem C7_cleanup_scoping_witness:
  "distinct (map Name (children (dirs demo_fs ''/tmp''))) \<and>
   \<lparr>Name = ''export3+'', IsDir = False\<rparr>
      \<in> set (children (dirs (snd (cleanupTmpFiles Match ''/tmp'' ''export[0-9]+'' demo_fs)) ''/tmp'')) \<and>
   \<lparr>Name = ''keep'', IsDir = True\<rparr>
      \<in> set (children (dirs (snd (cleanupTmpFiles Match ''/tmp'' ''export[0-9]+'' demo_fs)) ''/tmp'')) \<and>
   dirs (snd (cleanupTmpFiles Match ''/tmp'' ''export[0-9]+'' demo_fs)) ''/var'' = dirs demo_fs ''/var''"
proof -
  let ?res = "cleanupTmpFiles Match ''/tmp'' ''export[0-9]+'' demo_fs"
  have d: "distinct (map Name (children (dirs demo_fs ''/tmp'')))"
    by (simp add: demo_fs_def demo_root_def)
  have c: "?res = (fst ?res, snd ?res)" by simp
  note t = C7_cleanup_scoping [OF d c]
  have f: "\<lparr>Name = ''export3+'', IsDir = False\<rparr> \<in> set (children (dirs demo_fs ''/tmp''))"
    and k: "\<lparr>Name = ''keep'', IsDir = True\<rparr> \<in> set (children (dirs demo_fs ''/tmp''))"
    by (simp_all add: demo_fs_def demo_root_def)
  from t f have 1: "\<lparr>Name = ''export3+'', IsDir = False\<rparr> \<in> set (children (dirs (snd ?res) ''/tmp''))"
    by fastforce
  from t k have 2: "\<lparr>Name = ''keep'', IsDir = True\<rparr> \<in> set (children (dirs (snd ?res) ''/tmp''))"
    by (fastforce simp: Match_demo)
  from t have 3: "dirs (snd ?res) ''/var'' = dirs demo_fs ''/var''" by simp
  from d 1 2 3 show ?thesis by blast
qed

text \<open>
  C8. When listing the root fails the sweep returns that error and changes nothing,
  so it removes nothing. Otherwise, at the first entry where the matcher or a removal
  fails, the sweep returns that error; the removals it has called are those of the
  matching directories up to and including that entry, none of a later entry, and
  the root holds its former entries less the matching directories before that entry.
\<close>

theorem C8_sweep_failures:
  "(listing_error (dirs fs root) = Some err \<longrightarrow>
      cleanupTmpFiles m root pat fs = (Some err, fs)) \<and>
   (listing_error (dirs fs root) = None \<and> children (dirs fs root) = pre @ e # post \<and>
    (\<forall>x\<in>set pre. entry_failure m pat (dirs fs root) x = None) \<and>
    entry_failure m pat (dirs fs root) e = Some err \<longrightarrow>
      fst (cleanupTmpFiles m root pat fs) = Some err \<and>
      removals (snd (cleanupTmpFiles m root pat fs)) =
        removals fs @ map (\<lambda>x. (root, Name x)) (filter (matching_dir m pat) (pre @ [e])) \<and>
      children (dirs (snd (cleanupTmpFiles m root pat fs)) root) =
        filter (\<lambda>x. Name x \<notin> Name ` set (filter (matching_dir m pat) pre)) (pre @ e # post))"
proof (intro conjI impI)
  assume "listing_error (dirs fs root) = Some err"
  then show "cleanupTmpFiles m root pat fs = (Some err, fs)"
    by (simp add: cleanupTmpFiles_def ReadDir_def)
next
  assume a: "listing_error (dirs fs root) = None \<and> children (dirs fs root) = pre @ e # post \<and>
    (\<forall>x\<in>set pre. entry_failure m pat (dirs fs root) x = None) \<and>
    entry_failure m pat (dirs fs root) e = Some err"
  then have cl: "cleanupTmpFiles m root pat fs = sweep m root pat (pre @ e # post) fs"
    by (simp add: cleanupTmpFiles_def ReadDir_def)
  from a sweep_pass_prefix [of pre m pat fs root "e # post"] obtain fs1 where f:
    "sweep m root pat (pre @ e # post) fs = sweep m root pat (e # post) fs1"
    "removals fs1 = removals fs @ map (\<lambda>x. (root, Name x)) (filter (matching_dir m pat) pre)"
    "children (dirs fs1 root) =
       filter (\<lambda>x. Name x \<notin> Name ` set (filter (matching_dir m pat) pre)) (children (dirs fs root))"
    "remove_error (dirs fs1 root) = remove_error (dirs fs root)" by blast
  from a have "entry_failure m pat (dirs fs1 root) e = Some err"
    using entry_failure_cong [OF f(4), of m pat e] by simp
  note h = sweep_fail_here [OF this, of post]
  show "fst (cleanupTmpFiles m root pat fs) = Some err"
    using h cl f(1) by simp
  show "removals (snd (cleanupTmpFiles m root pat fs)) =
        removals fs @ map (\<lambda>x. (root, Name x)) (filter (matching_dir m pat) (pre @ [e]))"
    using h cl f(1) f(2) by simp
  show "children (dirs (snd (cleanupTmpFiles m root pat fs)) root) =
        filter (\<lambda>x. Name x \<notin> Name ` set (filter (matching_dir m pat) pre)) (pre @ e # post)"
    using h cl f(1) f(3) a by simp
qed

theorem C8_sweep_failures_witness:
  "cleanupTmpFiles Match ''/tmp'' ''export[0-9]+'' unreadable_fs =
     (Some (Foreign ''no such file or directory''), unreadable_fs) \<and>
   fst (cleanupTmpFiles Match ''/tmp'' ''export[0-9]+'' demo_fs) = Some (Foreign ''permission denied'') \<and>
   removals (snd (cleanupTmpFiles Match ''/tmp'' ''export[0-9]+'' demo_fs)) =
     [(''/tmp'', ''export1+''), (''/tmp'', ''export2+'')] \<and>
   children (dirs (snd (cleanupTmpFiles Match ''/tmp'' ''export[0-9]+'' demo_fs)) ''/tmp'') =
     [\<lparr>Name = ''export2+'', IsDir = True\<rparr>, \<lparr>Name = ''export3+'', IsDir = False\<rparr>,
      \<lparr>Name = ''keep'', IsDir = True\<rparr>]"
proof -
  let ?e1 = "\<lparr>Name = ''export1+'', IsDir = True\<rparr>"
  let ?e2 = "\<lparr>Name = ''export2+'', IsDir = True\<rparr>"
  let ?post = "[\<lparr>Name = ''export3+'', IsDir = False\<rparr>, \<lparr>Name = ''keep'', IsDir = True\<rparr>]"
  have l: "listing_error (dirs unreadable_fs ''/tmp'') = Some (Foreign ''no such file or directory'')"
    by (simp add: unreadable_fs_def)
  have h: "listing_error (dirs demo_fs ''/tmp'') = None \<and>
      children (dirs demo_fs ''/tmp'') = [?e1] @ ?e2 # ?post \<and>
      (\<forall>x\<in>set [?e1]. entry_failure Match ''export[0-9]+'' (dirs demo_fs ''/tmp'') x = None) \<and>
      entry_failure Match ''export[0-9]+'' (dirs demo_fs ''/tmp'') ?e2 = Some (Foreign ''permission denied'')"
    by (simp add: demo_fs_def demo_root_def entry_failure_def Match_demo)
  have m: "filter (matching_dir Match ''export[0-9]+'') ([?e1] @ [?e2]) = [?e1, ?e2]"
      "filter (matching_dir Match ''export[0-9]+'') [?e1] = [?e1]"
    by (simp_all add: matching_dir_def Match_demo)
  from C8_sweep_failures [of unreadable_fs "''/tmp''" "Foreign ''no such file or directory''" Match "''export[0-9]+''"] l
  have 1: "cleanupTmpFiles Match ''/tmp'' ''export[0-9]+'' unreadable_fs =
     (Some (Foreign ''no such file or directory''), unreadable_fs)" by blast
  from C8_sweep_failures [of demo_fs "''/tmp''" "Foreign ''permission denied''" Match "''export[0-9]+''" "[?e1]" ?e2 ?post] h
  have 2: "fst (cleanupTmpFiles Match ''/tmp'' ''export[0-9]+'' demo_fs) = Some (Foreign ''permission denied'') \<and>
      removals (snd (cleanupTmpFiles Match ''/tmp'' ''export[0-9]+'' demo_fs)) =
        removals demo_fs @ map (\<lambda>x. (''/tmp'', Name x)) (filter (matching_dir Match ''export[0-9]+'') ([?e1] @ [?e2])) \<and>
      children (dirs (snd (cleanupTmpFiles Match ''/tmp'' ''export[0-9]+'' demo_fs)) ''/tmp'') =
        filter (\<lambda>x. Name x \<notin> Name ` set (filter (matching_dir Match ''export[0-9]+'') [?e1])) ([?e1] @ ?e2 # ?post)"
    by blast
  from 1 2 show ?thesis unfolding m by (simp add: demo_fs_def)
qed

section \<open>Properties of the orchestrator\<close>

text \<open>The events of the loop's body and of the handler, case by case.\<close>

lemma run_cleanup_trace:
  "trace (run_cleanup lib p s) =
     trace s @ (if cleanup (dgraphTmp p) then [Call_cleanupTmpFiles] else [])"
  by (simp add: run_cleanup_def split: prod.splits option.splits)

lemma tick_body_trace:
  "trace (tick_body lib p ctx Mutate c s) =
     trace s @ [Call_Export, Return_Export] @
       (if succeeded (Export Mutate ctx c) \<and> cleanup (dgraphTmp p) then [Call_cleanupTmpFiles] else [])"
  by (simp add: tick_body_def call_Export_def Let_def succeeded_def run_cleanup_trace
      split: sum.splits)

lemma method_switch_post:
  assumes "Method r = ''POST''"
    and "NewClient (url_Parse lib) (endpoint p) (dest p)
           [WithAccessKey (accessKey p), WithSecretKey (secretKey p)] = Inr c"
  shows "method_switch lib p ctx Mutate r (w, s) =
     (case Export Mutate ctx c of
        Inl err \<Rightarrow> (True, Fprintln w (Error err), s\<lparr>trace := trace s @ [Call_Export, Return_Export, Write_Response]\<rparr>)
      | Inr out \<Rightarrow>
          (case json_Marshal lib out of
             Inl err \<Rightarrow> (True, Fprintln w (Error err), s\<lparr>trace := trace s @ [Call_Export, Return_Export, Write_Response]\<rparr>)
           | Inr b \<Rightarrow> (False, Fprintln w b, s\<lparr>trace := trace s @ [Call_Export, Return_Export, Write_Response]\<rparr>)))"
  using assms by (simp add: method_switch_def call_Export_def respond_def split: sum.splits)

lemma handler_post_trace:
  assumes "Method r = ''POST''"
    and "NewClient (url_Parse lib) (endpoint p) (dest p)
           [WithAccessKey (accessKey p), WithSecretKey (secretKey p)] = Inr c"
  shows "trace (snd (apiExportHandler lib p ctx Mutate r (w, s))) =
     trace s @ [Call_Export, Return_Export, Write_Response] @
       (if (case Export Mutate ctx c of Inl err \<Rightarrow> False | Inr out \<Rightarrow> succeeded (json_Marshal lib out))
           \<and> cleanup (dgraphTmp p)
        then [Call_cleanupTmpFiles] else [])"
  by (simp add: apiExportHandler_def method_switch_post [OF assms] run_cleanup_trace succeeded_def
      split: sum.splits)

lemma handler_post_noclient_trace:
  assumes "Method r = ''POST''"
    and "NewClient (url_Parse lib) (endpoint p) (dest p)
           [WithAccessKey (accessKey p), WithSecretKey (secretKey p)] = Inl err"
  shows "trace (snd (apiExportHandler lib p ctx Mutate r (w, s))) = trace s @ [Write_Response]"
  using assms by (simp add: apiExportHandler_def method_switch_def respond_def)

lemma handler_other_trace:
  assumes "Method r \<noteq> ''POST''"
  shows "trace (snd (apiExportHandler lib p ctx Mutate r (w, s))) =
     trace s @ [Write_Response] @ (if cleanup (dgraphTmp p) then [Call_cleanupTmpFiles] else [])"
  using assms by (simp add: apiExportHandler_def method_switch_def respond_def run_cleanup_trace)

lemma handler_other_response:
  assumes "Method r \<noteq> ''POST''"
  shows "fst (apiExportHandler lib p ctx Mutate r (w, s)) = http_Error w ''Method not allowed'' 405"
  using assms by (simp add: apiExportHandler_def method_switch_def respond_def)

lemma handler_post_response:
  assumes "Method r = ''POST''"
    and "NewClient (url_Parse lib) (endpoint p) (dest p)
           [WithAccessKey (accessKey p), WithSecretKey (secretKey p)] = Inr c"
  shows "fst (apiExportHandler lib p ctx Mutate r (w, s)) =
     Fprintln w
       (case Export Mutate ctx c of
          Inl err \<Rightarrow> Error err
        | Inr out \<Rightarrow> (case json_Marshal lib out of Inl err \<Rightarrow> Error err | Inr b \<Rightarrow> b))"
  by (simp add: apiExportHandler_def method_switch_post [OF assms] split: sum.splits)

text \<open>
  The peak of an interleaving is at most the sum of the peaks of the traces interleaved.
\<close>

lemma peak_ge: "a \<le> peak a tr"
  by (induction tr arbitrary: a) auto

lemma peak_shuffles: "tr \<in> shuffles xs ys \<Longrightarrow> peak (a + b) tr \<le> peak a xs + peak b ys"
proof (induction tr arbitrary: xs ys a b)
  case Nil
  then show ?case by simp
next
  case (Cons z zs)
  obtain g ev where z: "z = (g, ev)" by (cases z)
  from Cons.prems consider
    (left) "xs \<noteq> []" "hd xs = z" "zs \<in> shuffles (tl xs) ys"
    | (right) "ys \<noteq> []" "hd ys = z" "zs \<in> shuffles xs (tl ys)"
    by (auto simp: Cons_in_shuffles_iff)
  then show ?case
  proof cases
    case left
    then have xs: "xs = (g, ev) # tl xs" using z by (cases xs) auto
    from Cons.IH [OF left(3), of "a + delta ev" b]
    have "peak (a + b + delta ev) zs \<le> peak (a + delta ev) (tl xs) + peak b ys"
      by (simp add: add.commute add.left_commute)
    moreover have "b \<le> peak b ys" by (rule peak_ge)
    moreover have "peak a xs = max a (peak (a + delta ev) (tl xs))" by (subst xs) simp
    ultimately show ?thesis using z by (simp add: max_def)
  next
    case right
    then have ys: "ys = (g, ev) # tl ys" using z by (cases ys) auto
    from Cons.IH [OF right(3), of a "b + delta ev"]
    have "peak (a + b + delta ev) zs \<le> peak a xs + peak (b + delta ev) (tl ys)"
      by (simp add: add.assoc)
    moreover have "a \<le> peak a xs" by (rule peak_ge)
    moreover have "peak b ys = max b (peak (b + delta ev) (tl ys))" by (subst ys) simp
    ultimately show ?thesis using z by (simp add: max_def)
  qed
qed

lemma peak_interleavings:
  "tr \<in> interleavings ts \<Longrightarrow> peak 0 tr \<le> sum_list (map (peak 0) ts)"
proof (induction ts arbitrary: tr)
  case Nil
  then show ?case by simp
next
  case (Cons t ts)
  then obtain u where u: "u \<in> interleavings ts" "tr \<in> shuffles t u" by auto
  from peak_shuffles [OF u(2), of 0 0] Cons.IH [OF u(1)] show ?case by simp
qed

lemma active_append: "active (xs @ ys) = active xs + active ys"
  by (induction xs rule: active.induct) auto

lemma peak_append: "peak a (xs @ ys) = max (peak a xs) (peak (a + active xs) ys)"
proof (induction xs arbitrary: a rule: active.induct)
  case 1
  show ?case using peak_ge [of a ys] by simp
next
  case (2 g ev tr)
  show ?case using 2 [of "a + delta ev"] by (simp add: add.assoc max.assoc)
qed

lemma tagged_block:
  "active (map (Pair g) ([Call_Export, Return_Export] @ rest)) = active (map (Pair g) rest)"
  "peak a (map (Pair g) [Call_Export, Return_Export]) = a + 1"
  by simp_all

lemma quiet_events:
  "set evs \<subseteq> {Write_Response, Call_cleanupTmpFiles} \<Longrightarrow>
   active (map (Pair g) evs) = 0 \<and> peak a (map (Pair g) evs) = a"
  by (induction evs arbitrary: a) auto

text \<open>One step of the loop adds nothing or one call of Export, returned, and then no call.\<close>

lemma step_trace:
  "\<exists>evs. trace (snd (step lib p ctx sg st)) = trace (snd st) @ evs \<and>
        active (map (Pair g) evs) = 0 \<and> peak a (map (Pair g) evs) \<le> a + 1"
proof (cases "\<exists>Mutate c s. sg = Tick Mutate \<and> st = (Running c, s)")
  case True
  then obtain Mutate c s where sg: "sg = Tick Mutate" and st: "st = (Running c, s)" by blast
  let ?rest = "if succeeded (Export Mutate ctx c) \<and> cleanup (dgraphTmp p) then [Call_cleanupTmpFiles] else []"
  have "trace (snd (step lib p ctx sg st)) = trace (snd st) @ [Call_Export, Return_Export] @ ?rest"
    by (simp add: sg st tick_body_trace)
  moreover have "active (map (Pair g) ([Call_Export, Return_Export] @ ?rest)) = 0" by simp
  moreover have "peak a (map (Pair g) ([Call_Export, Return_Export] @ ?rest)) \<le> a + 1" by simp
  ultimately show ?thesis by blast
next
  case False
  have "trace (snd (step lib p ctx sg st)) = trace (snd st)"
  proof (cases st)
    case (Pair l s)
    with False show ?thesis
      by (cases sg; cases l) (auto split: sum.splits)
  qed
  then show ?thesis by (intro exI [of _ "[]"]) simp
qed

lemma exportLoop_trace:
  "\<exists>evs. trace (snd (exportLoop lib p ctx sigs st)) = trace (snd st) @ evs \<and>
        active (map (Pair g) evs) = 0 \<and> peak a (map (Pair g) evs) \<le> a + 1"
proof (induction sigs arbitrary: st)
  case Nil
  show ?case by (intro exI [of _ "[]"]) (simp add: exportLoop_def)
next
  case (Cons sg sigs)
  from step_trace [of lib p ctx sg st g a] obtain e1 where e1:
    "trace (snd (step lib p ctx sg st)) = trace (snd st) @ e1"
    "active (map (Pair g) e1) = 0" "peak a (map (Pair g) e1) \<le> a + 1" by blast
  from Cons [of "step lib p ctx sg st"] obtain e2 where e2:
    "trace (snd (exportLoop lib p ctx sigs (step lib p ctx sg st))) = trace (snd (step lib p ctx sg st)) @ e2"
    "active (map (Pair g) e2) = 0" "peak a (map (Pair g) e2) \<le> a + 1" by blast
  have "exportLoop lib p ctx (sg # sigs) st = exportLoop lib p ctx sigs (step lib p ctx sg st)"
    by (simp add: exportLoop_def)
  with e1 e2 show ?case
    by (intro exI [of _ "e1 @ e2"]) (simp add: active_append peak_append)
qed

lemma loop_events_peak: "peak 0 (loop_events lib p ctx sigs fs) \<le> 1"
  using exportLoop_trace [of lib p ctx sigs "(NotStarted, fresh fs)" Loop 0]
  by (auto simp: loop_events_def fresh_def)

lemma handler_events_peak: "peak 0 (handler_events lib p ctx i a) \<le> 1"
proof -
  obtain r Mutate fs where a: "a = (r, Mutate, fs)" by (cases a)
  let ?n = "NewClient (url_Parse lib) (endpoint p) (dest p)
           [WithAccessKey (accessKey p), WithSecretKey (secretKey p)]"
  show ?thesis
  proof (cases "Method r = ''POST''")
    case False
    then show ?thesis
      by (simp add: a handler_events_def handler_other_trace fresh_def)
  next
    case True
    show ?thesis
    proof (cases ?n)
      case (Inl err)
      with True show ?thesis
        by (simp add: a handler_events_def handler_post_noclient_trace fresh_def)
    next
      case (Inr c)
      with True show ?thesis
        by (simp add: a handler_events_def handler_post_trace fresh_def)
    qed
  qed
qed

lemma handlers_events_peak:
  "sum_list (map (peak 0) (handlers_events lib p ctx i arrivals)) \<le> int (length arrivals)"
proof (induction arrivals arbitrary: i)
  case Nil
  show ?case by simp
next
  case (Cons a arrivals)
  from Cons [of "Suc i"] handler_events_peak [of lib p ctx i a] show ?case by simp
qed

text \<open>The scenarios evaluated.\<close>

lemma NewClient_params0:
  "NewClient (url_Parse lib0) (endpoint params0) (dest params0)
     [WithAccessKey (accessKey params0), WithSecretKey (secretKey params0)] = Inr client0"
  by (simp add: NewClient_def lib0_def params0_def client0_def WithAccessKey_def WithSecretKey_def)

lemma NewClient_params_cleanup:
  "NewClient (url_Parse lib0) (endpoint params_cleanup) (dest params_cleanup)
     [WithAccessKey (accessKey params_cleanup), WithSecretKey (secretKey params_cleanup)] = Inr client0"
  by (simp add: NewClient_def lib0_def params_cleanup_def params0_def client0_def
      WithAccessKey_def WithSecretKey_def)

lemma Export_scenarios:
  "Export remote_ok ctx client0 = Inr out_ok"
  "Export remote_down ctx client0 = Inl (Foreign ''connection refused'')"
  "Export remote_rejects ctx client0 =
     Inl (Errorf (unsuccessful_text ''Error'' ''export already in progress''))"
  by (simp_all add: Export_def remote_ok_def remote_down_def remote_rejects_def out_ok_def
      out_rejected_def Let_def)

lemma loop_one_tick:
  "loop_events lib0 params0 ctx_live [OnStartedLeading, Tick remote_ok] example_fs =
     [(Loop, Call_Export), (Loop, Return_Export)]"
  by (simp add: loop_events_def exportLoop_def NewClient_params0 tick_body_trace fresh_def
      Export_scenarios succeeded_def) (simp add: params0_def)

lemma handler_one_post:
  "handler_events lib0 params0 ctx_live 0 (post_request, remote_ok, example_fs) =
     [(Handler 0, Call_Export), (Handler 0, Return_Export), (Handler 0, Write_Response)]"
  by (simp add: handler_events_def handler_post_trace [OF _ NewClient_params0] post_request_def
      fresh_def) (simp add: params0_def)

lemma handler_one_post_response:
  "fst (apiExportHandler lib0 params0 ctx_live remote_ok post_request (w0, fresh example_fs)) =
     \<lparr>Status = Some 200, Body = ''{json}'' @ [CHR 0x0A]\<rparr>"
proof -
  have m: "Method post_request = ''POST''" by (simp add: post_request_def)
  show ?thesis
    by (simp add: handler_post_response [OF m NewClient_params0] Export_scenarios)
       (simp add: lib0_def Fprintln_def w0_def)
qed

text \<open>One occurrence, and a run of them, seen by the calls of \<open>Export\<close> made.\<close>

lemma step_trace_other:
  "(\<forall>Mutate. sg \<noteq> Tick Mutate) \<Longrightarrow> trace (snd (step lib p ctx sg st)) = trace (snd st)"
proof (cases st)
  case (Pair l s)
  assume "\<forall>Mutate. sg \<noteq> Tick Mutate"
  with Pair show ?thesis by (cases sg; cases l) (auto split: sum.splits)
qed

lemma step_tick_running:
  "running l \<Longrightarrow>
   fst (step lib p ctx (Tick Mutate) (l, s)) = l \<and>
   (\<exists>rest. trace (snd (step lib p ctx (Tick Mutate) (l, s))) =
              trace s @ [Call_Export, Return_Export] @ rest \<and> Call_Export \<notin> set rest)"
proof -
  assume "running l"
  then obtain c where l: "l = Running c" by (cases l) auto
  let ?rest = "if succeeded (Export Mutate ctx c) \<and> cleanup (dgraphTmp p) then [Call_cleanupTmpFiles] else []"
  have "trace (snd (step lib p ctx (Tick Mutate) (l, s))) = trace s @ [Call_Export, Return_Export] @ ?rest"
    by (simp add: l tick_body_trace)
  moreover have "Call_Export \<notin> set ?rest" by simp
  ultimately show ?thesis using l by auto
qed

lemma pstep_invocations:
  "invocations (pstep lib p oc st) =
     invocations st +
     (case oc of
        Select_tick Mutate \<Rightarrow> (if running (fst (loop st)) \<and> tick_waiting st then 1 else 0)
      | _ \<Rightarrow> 0)"
proof (cases oc)
  case (Select_tick Mutate)
  show ?thesis
  proof (cases "running (fst (loop st)) \<and> tick_waiting st")
    case False
    with Select_tick show ?thesis by (auto simp: invocations_def)
  next
    case True
    obtain l s where ls: "loop st = (l, s)" by (cases "loop st")
    with True have "running l" by simp
    from step_tick_running [OF this, of lib p "loop_ctx st" Mutate s] obtain rest where
      "trace (snd (step lib p (loop_ctx st) (Tick Mutate) (l, s))) =
              trace s @ [Call_Export, Return_Export] @ rest" "Call_Export \<notin> set rest" by blast
    with True Select_tick ls show ?thesis by (simp add: invocations_def count_list_0_iff)
  qed
qed (simp_all add: invocations_def Let_def step_trace_other)

lemma process_run_Cons:
  "process_run lib p (oc # occs) st = process_run lib p occs (pstep lib p oc st)"
  by (simp add: process_run_def)

lemma process_run_invocations:
  "invocations (process_run lib p occs st) = invocations st + ticks_taken lib p occs st"
proof (induction occs arbitrary: st)
  case Nil
  show ?case by (simp add: process_run_def)
next
  case (Cons oc occs)
  show ?case
    by (simp add: process_run_Cons Cons pstep_invocations split: occurrence.splits)
qed

lemma process_run_before_leading:
  "Leadership_gained \<notin> set occs \<Longrightarrow>
   process_run lib p occs (initial_process fs) = initial_process fs"
proof (induction occs)
  case Nil
  show ?case by (simp add: process_run_def)
next
  case (Cons oc occs)
  then have "oc \<noteq> Leadership_gained" by auto
  then have "pstep lib p oc (initial_process fs) = initial_process fs"
    by (cases oc) (simp_all add: initial_process_def)
  with Cons show ?case by (simp add: process_run_Cons)
qed

lemma pstep_returned:
  "fst (loop st) = Returned \<Longrightarrow> loop (pstep lib p oc st) = loop st"
  by (cases oc) (auto simp: Let_def)

lemma process_run_returned:
  "fst (loop st) = Returned \<Longrightarrow> loop (process_run lib p occs st) = loop st"
proof (induction occs arbitrary: st)
  case Nil
  show ?case by (simp add: process_run_def)
next
  case (Cons oc occs)
  from Cons.prems have l: "loop (pstep lib p oc st) = loop st" by (rule pstep_returned)
  with Cons.prems have "fst (loop (pstep lib p oc st)) = Returned" by simp
  from Cons.IH [OF this] l show ?case by (simp add: process_run_Cons)
qed

lemma Done_cancel_ctx: "ctx \<noteq> Background \<Longrightarrow> Done (cancel_ctx ctx)"
  by (cases ctx) auto

lemma period_params0: "\<not> period params0 \<le> 0"
  by (simp add: params0_def)

lemma run_gained:
  "pstep lib0 params0 Leadership_gained (initial_process example_fs) = proc_led"
  by (simp add: initial_process_def proc_led_def NewClient_params0 period_params0)

lemma tick_ok:
  "trace (tick_body lib0 params0 ctx remote_ok client0 s) = trace s @ [Call_Export, Return_Export]"
  "trace (tick_body lib0 params0 ctx remote_down client0 s) = trace s @ [Call_Export, Return_Export]"
  by (simp_all add: tick_body_trace Export_scenarios succeeded_def) (simp_all add: params0_def)

lemma run_from_gained:
  "process_run lib0 params0 (Leadership_gained # occs) (initial_process example_fs) =
     process_run lib0 params0 occs proc_led"
  by (simp only: process_run_Cons run_gained)

text \<open>
  C9, as the code has it. The program has no record of leadership that the tick path
  reads; the calls of \<open>Export\<close> on the timer path follow the life of the loop.
  Before leadership is gained there is no loop and no ticker: whatever fires, is
  taken or is lost, the process stays exactly as it was, so no Invocation is started
  and no tick is kept. While the loop runs, every tick its \<open>select\<close> takes starts
  exactly one Invocation, clears the waiting tick and leaves the loop running; this
  holds whether or not leadership has been lost in the meantime. Loss of leadership
  cancels the loop's context and leaves the loop as it is; once \<open>select\<close> takes
  \<open>ctx.Done()\<close> the loop has returned, and from then on nothing that occurs starts
  an Invocation. In every run the number of Invocations the timer path has started
  is the number of ticks its \<open>select\<close> has taken.
\<close>

theorem C9_invocations_follow_the_loop:
  "(Leadership_gained \<notin> set occs \<longrightarrow>
      process_run lib p occs (initial_process fs) = initial_process fs) \<and>
   (running (fst (loop st)) \<and> tick_waiting st \<longrightarrow>
      fst (loop (pstep lib p (Select_tick Mutate) st)) = fst (loop st) \<and>
      \<not> tick_waiting (pstep lib p (Select_tick Mutate) st) \<and>
      (\<exists>rest. trace (snd (loop (pstep lib p (Select_tick Mutate) st))) =
                 trace (snd (loop st)) @ [Call_Export, Return_Export] @ rest \<and>
               Call_Export \<notin> set rest)) \<and>
   (leader st \<and> loop_ctx st \<noteq> Background \<longrightarrow>
      \<not> leader (pstep lib p Leadership_lost st) \<and>
      Done (loop_ctx (pstep lib p Leadership_lost st)) \<and>
      loop (pstep lib p Leadership_lost st) = loop st) \<and>
   (running (fst (loop st)) \<and> Done (loop_ctx st) \<longrightarrow>
      loop (pstep lib p Select_done st) = (Returned, snd (loop st))) \<and>
   (fst (loop st) = Returned \<longrightarrow> loop (process_run lib p occs st) = loop st) \<and>
   invocations (process_run lib p occs st) = invocations st + ticks_taken lib p occs st"
proof (intro conjI impI)
  assume "Leadership_gained \<notin> set occs"
  then show "process_run lib p occs (initial_process fs) = initial_process fs"
    by (rule process_run_before_leading)
next
  assume a: "running (fst (loop st)) \<and> tick_waiting st"
  obtain l s where ls: "loop st = (l, s)" by (cases "loop st")
  with a have r: "running l" by simp
  note t = step_tick_running [OF r, of lib p "loop_ctx st" Mutate s]
  from a ls t show "fst (loop (pstep lib p (Select_tick Mutate) st)) = fst (loop st)" by simp
  from a show "\<not> tick_waiting (pstep lib p (Select_tick Mutate) st)" by simp
  from a ls t show "\<exists>rest. trace (snd (loop (pstep lib p (Select_tick Mutate) st))) =
                 trace (snd (loop st)) @ [Call_Export, Return_Export] @ rest \<and>
               Call_Export \<notin> set rest" by simp
next
  assume a: "leader st \<and> loop_ctx st \<noteq> Background"
  then show "\<not> leader (pstep lib p Leadership_lost st)" by simp
  from a show "Done (loop_ctx (pstep lib p Leadership_lost st))" by (simp add: Done_cancel_ctx)
  from a show "loop (pstep lib p Leadership_lost st) = loop st" by simp
next
  assume a: "running (fst (loop st)) \<and> Done (loop_ctx st)"
  obtain l s where ls: "loop st = (l, s)" by (cases "loop st")
  with a obtain c where "l = Running c" by (cases l) auto
  with a ls show "loop (pstep lib p Select_done st) = (Returned, snd (loop st))" by simp
next
  assume "fst (loop st) = Returned"
  then show "loop (process_run lib p occs st) = loop st" by (rule process_run_returned)
next
  show "invocations (process_run lib p occs st) = invocations st + ticks_taken lib p occs st"
    by (rule process_run_invocations)
qed

theorem C9_invocations_follow_the_loop_witness:
  "Leadership_gained \<notin> set [Ticker_fires, Select_tick remote_ok, Leadership_lost, Select_done] \<and>
   process_run lib0 params0 [Ticker_fires, Select_tick remote_ok, Leadership_lost, Select_done]
     (initial_process example_fs) = initial_process example_fs \<and>
   running (fst (loop (pstep lib0 params0 Ticker_fires proc_led))) \<and>
   tick_waiting (pstep lib0 params0 Ticker_fires proc_led) \<and>
   take 2 (trace (snd (loop (pstep lib0 params0 (Select_tick remote_ok)
                              (pstep lib0 params0 Ticker_fires proc_led))))) =
     [Call_Export, Return_Export] \<and>
   leader proc_led \<and> loop_ctx proc_led \<noteq> Background \<and>
   Done (loop_ctx (pstep lib0 params0 Leadership_lost proc_led)) \<and>
   running (fst (loop (pstep lib0 params0 Leadership_lost proc_led))) \<and>
   loop (pstep lib0 params0 Select_done (pstep lib0 params0 Leadership_lost proc_led)) =
     (Returned, fresh example_fs) \<and>
   loop (process_run lib0 params0 [Ticker_fires, Select_tick remote_ok, Leadership_gained]
           (pstep lib0 params0 Select_done (pstep lib0 params0 Leadership_lost proc_led))) =
     (Returned, fresh example_fs) \<and>
   invocations (process_run lib0 params0
       [Leadership_gained, Ticker_fires, Ticker_fires, Select_tick remote_ok, Select_tick remote_ok,
        Ticker_fires, Select_tick remote_down]
       (initial_process example_fs)) = 2"
proof -
  let ?occs = "[Ticker_fires, Select_tick remote_ok, Leadership_lost, Select_done]"
  let ?st1 = "pstep lib0 params0 Ticker_fires proc_led"
  let ?st2 = "pstep lib0 params0 Leadership_lost proc_led"
  let ?st3 = "pstep lib0 params0 Select_done ?st2"
  let ?long = "[Leadership_gained, Ticker_fires, Ticker_fires, Select_tick remote_ok,
        Select_tick remote_ok, Ticker_fires, Select_tick remote_down]"
  have a: "Leadership_gained \<notin> set ?occs" by simp
  have b: "running (fst (loop ?st1)) \<and> tick_waiting ?st1" by (simp add: proc_led_def)
  have c: "leader proc_led \<and> loop_ctx proc_led \<noteq> Background" by (simp add: proc_led_def)
  have ls: "loop proc_led = (Running client0, fresh example_fs)" by (simp add: proc_led_def)
  from C9_invocations_follow_the_loop [of ?occs lib0 params0 example_fs] a
  have 1: "process_run lib0 params0 ?occs (initial_process example_fs) = initial_process example_fs"
    by blast
  from C9_invocations_follow_the_loop [of ?occs lib0 params0 example_fs ?st1 remote_ok] b
  obtain rest where "trace (snd (loop (pstep lib0 params0 (Select_tick remote_ok) ?st1))) =
      trace (snd (loop ?st1)) @ [Call_Export, Return_Export] @ rest" by blast
  then have 2: "take 2 (trace (snd (loop (pstep lib0 params0 (Select_tick remote_ok) ?st1)))) =
      [Call_Export, Return_Export]" by (simp add: proc_led_def fresh_def)
  from C9_invocations_follow_the_loop [of ?occs lib0 params0 example_fs proc_led remote_ok] c
  have 3: "Done (loop_ctx ?st2)" and l2: "loop ?st2 = loop proc_led" by blast+
  from l2 ls have r2: "running (fst (loop ?st2))" by simp
  from C9_invocations_follow_the_loop [of ?occs lib0 params0 example_fs ?st2 remote_ok] r2 3
  have "loop ?st3 = (Returned, snd (loop ?st2))" by blast
  with l2 ls have 4: "loop ?st3 = (Returned, fresh example_fs)" by simp
  then have "fst (loop ?st3) = Returned" by simp
  with C9_invocations_follow_the_loop
    [of "[Ticker_fires, Select_tick remote_ok, Leadership_gained]" lib0 params0 example_fs ?st3 remote_ok]
  have "loop (process_run lib0 params0 [Ticker_fires, Select_tick remote_ok, Leadership_gained] ?st3) =
      loop ?st3" by blast
  with 4 have 5: "loop (process_run lib0 params0 [Ticker_fires, Select_tick remote_ok, Leadership_gained] ?st3) =
      (Returned, fresh example_fs)" by simp
  from C9_invocations_follow_the_loop [of ?long lib0 params0 example_fs "initial_process example_fs" remote_ok]
  have "invocations (process_run lib0 params0 ?long (initial_process example_fs)) =
      invocations (initial_process example_fs) + ticks_taken lib0 params0 ?long (initial_process example_fs)"
    by blast
  moreover have "invocations (initial_process example_fs) = 0"
    by (simp add: invocations_def initial_process_def fresh_def)
  moreover have "ticks_taken lib0 params0 ?long (initial_process example_fs) = 2"
    using run_gained by (simp del: pstep.simps(1)) (simp add: proc_led_def)
  ultimately have 6: "invocations (process_run lib0 params0 ?long (initial_process example_fs)) = 2"
    by simp
  from a 1 b 2 c 3 r2 4 5 6 show ?thesis by blast
qed

text \<open>
  The claim C9 as stated fails in the Follower state that follows a loss of leadership:
  in the run below leadership is gained and lost, so the process no longer leads and
  the loop's context is done; then the ticker fires and \<open>select\<close>, with both cases
  ready, takes the tick; an Invocation is started.
\<close>

theorem C9_tick_taken_after_leadership_lost:
  "\<not> leader (process_run lib0 params0 [Leadership_gained, Leadership_lost] (initial_process example_fs)) \<and>
   Done (loop_ctx (process_run lib0 params0 [Leadership_gained, Leadership_lost]
                     (initial_process example_fs))) \<and>
   invocations (process_run lib0 params0 [Leadership_gained, Leadership_lost, Ticker_fires]
                  (initial_process example_fs)) = 0 \<and>
   trace (snd (loop (process_run lib0 params0
                       [Leadership_gained, Leadership_lost, Ticker_fires, Select_tick remote_ok]
                       (initial_process example_fs)))) = [Call_Export, Return_Export]"
  unfolding run_from_gained
  by (simp add: process_run_def proc_led_def invocations_def tick_ok fresh_def)

text \<open>
  C4, as the code has it. With cleanup enabled the sweeper runs after an Invocation
  exactly when the Invocation succeeded: on the timer path when \<open>Export\<close> returned
  no error, on the on-demand path when \<open>Export\<close> returned no error and its output
  was serialised. After a failed Invocation the loop goes on to the next tick and the
  handler returns, and no sweep is run.
\<close>

theorem C4_sweep_after_successful_invocation:
  "cleanup (dgraphTmp p) \<longrightarrow>
     trace (snd (step lib p ctx (Tick Mutate) (Running c, s))) =
       trace s @ [Call_Export, Return_Export] @
         (if succeeded (Export Mutate ctx c) then [Call_cleanupTmpFiles] else []) \<and>
     (Method r = ''POST'' \<and>
      NewClient (url_Parse lib) (endpoint p) (dest p)
        [WithAccessKey (accessKey p), WithSecretKey (secretKey p)] = Inr c \<longrightarrow>
        trace (snd (apiExportHandler lib p ctx Mutate r (w, s))) =
          trace s @ [Call_Export, Return_Export, Write_Response] @
            (if (case Export Mutate ctx c of
                   Inl err \<Rightarrow> False
                 | Inr out \<Rightarrow> succeeded (json_Marshal lib out))
             then [Call_cleanupTmpFiles] else []))"
  by (simp add: tick_body_trace handler_post_trace)

theorem C4_sweep_after_successful_invocation_witness:
  "cleanup (dgraphTmp params_cleanup) \<and>
   Method post_request = ''POST'' \<and>
   NewClient (url_Parse lib0) (endpoint params_cleanup) (dest params_cleanup)
     [WithAccessKey (accessKey params_cleanup), WithSecretKey (secretKey params_cleanup)] = Inr client0 \<and>
   trace (snd (step lib0 params_cleanup ctx_live (Tick remote_ok) (Running client0, fresh example_fs))) =
     [Call_Export, Return_Export, Call_cleanupTmpFiles] \<and>
   trace (snd (step lib0 params_cleanup ctx_live (Tick remote_rejects) (Running client0, fresh example_fs))) =
     [Call_Export, Return_Export] \<and>
   trace (snd (apiExportHandler lib0 params_cleanup ctx_live remote_ok post_request (w0, fresh example_fs))) =
     [Call_Export, Return_Export, Write_Response, Call_cleanupTmpFiles]"
proof -
  have c: "cleanup (dgraphTmp params_cleanup)" by (simp add: params_cleanup_def params0_def)
  have m: "Method post_request = ''POST''" by (simp add: post_request_def)
  note n = NewClient_params_cleanup
  from C4_sweep_after_successful_invocation
    [of params_cleanup lib0 ctx_live remote_ok client0 "fresh example_fs" post_request w0] c m n
  have 1: "trace (snd (step lib0 params_cleanup ctx_live (Tick remote_ok) (Running client0, fresh example_fs))) =
       trace (fresh example_fs) @ [Call_Export, Return_Export] @
         (if succeeded (Export remote_ok ctx_live client0) then [Call_cleanupTmpFiles] else [])"
    and 2: "trace (snd (apiExportHandler lib0 params_cleanup ctx_live remote_ok post_request (w0, fresh example_fs))) =
          trace (fresh example_fs) @ [Call_Export, Return_Export, Write_Response] @
            (if (case Export remote_ok ctx_live client0 of
                   Inl err \<Rightarrow> False
                 | Inr out \<Rightarrow> succeeded (json_Marshal lib0 out))
             then [Call_cleanupTmpFiles] else [])"
    by blast+
  from C4_sweep_after_successful_invocation
    [of params_cleanup lib0 ctx_live remote_rejects client0 "fresh example_fs" post_request w0] c
  have 3: "trace (snd (step lib0 params_cleanup ctx_live (Tick remote_rejects) (Running client0, fresh example_fs))) =
       trace (fresh example_fs) @ [Call_Export, Return_Export] @
         (if succeeded (Export remote_rejects ctx_live client0) then [Call_cleanupTmpFiles] else [])"
    by blast
  from 1 have e1: "trace (snd (step lib0 params_cleanup ctx_live (Tick remote_ok) (Running client0, fresh example_fs))) =
     [Call_Export, Return_Export, Call_cleanupTmpFiles]"
    by (simp add: Export_scenarios succeeded_def fresh_def)
  from 2 have e2: "trace (snd (apiExportHandler lib0 params_cleanup ctx_live remote_ok post_request (w0, fresh example_fs))) =
     [Call_Export, Return_Export, Write_Response, Call_cleanupTmpFiles]"
    by (simp add: Export_scenarios succeeded_def fresh_def lib0_def)
  from 3 have e3: "trace (snd (step lib0 params_cleanup ctx_live (Tick remote_rejects) (Running client0, fresh example_fs))) =
     [Call_Export, Return_Export]"
    by (simp add: Export_scenarios succeeded_def fresh_def)
  from c m n e1 e2 e3 show ?thesis by blast
qed

text \<open>
  The claim C4 as stated fails: with cleanup enabled and a remote that cannot be
  reached, the Invocation fails and neither the timer path nor the on-demand path
  calls the sweeper after it.
\<close>

theorem C4_no_sweep_after_failed_invocation:
  "cleanup (dgraphTmp params_cleanup) \<and>
   trace (snd (exportLoop lib0 params_cleanup ctx_live [OnStartedLeading, Tick remote_down]
                 (NotStarted, fresh example_fs))) = [Call_Export, Return_Export] \<and>
   trace (snd (apiExportHandler lib0 params_cleanup ctx_live remote_down post_request
                 (w0, fresh example_fs))) = [Call_Export, Return_Export, Write_Response]"
proof -
  have c: "cleanup (dgraphTmp params_cleanup)" "0 < period params_cleanup"
    by (simp_all add: params_cleanup_def params0_def)
  have "trace (snd (exportLoop lib0 params_cleanup ctx_live [OnStartedLeading, Tick remote_down]
                 (NotStarted, fresh example_fs))) = [Call_Export, Return_Export]"
    using c by (simp add: exportLoop_def NewClient_params_cleanup tick_body_trace fresh_def
        Export_scenarios succeeded_def)
  moreover have "trace (snd (apiExportHandler lib0 params_cleanup ctx_live remote_down post_request
                 (w0, fresh example_fs))) = [Call_Export, Return_Export, Write_Response]"
    using handler_post_trace [of post_request lib0 params_cleanup client0 ctx_live remote_down w0
        "fresh example_fs", OF _ NewClient_params_cleanup]
    by (simp add: post_request_def Export_scenarios fresh_def)
  ultimately show ?thesis using c by simp
qed

text \<open>
  C10, as the code has it. With cleanup enabled, a request whose method is not
  \<open>POST\<close> is answered \<open>Method not allowed\<close> with status 405 and the sweep runs
  after that response is written; a \<open>POST\<close> request is followed by a sweep, after
  its response is written, when the client was built, the export succeeded and its
  output was serialised, and by no sweep otherwise.
\<close>

theorem C10_sweep_after_request:
  assumes "cleanup (dgraphTmp p)"
  shows "(Method r \<noteq> ''POST'' \<longrightarrow>
            fst (apiExportHandler lib p ctx Mutate r (w, s)) = http_Error w ''Method not allowed'' 405 \<and>
            (Status w = None \<longrightarrow> Status (fst (apiExportHandler lib p ctx Mutate r (w, s))) = Some 405) \<and>
            trace (snd (apiExportHandler lib p ctx Mutate r (w, s))) =
              trace s @ [Write_Response, Call_cleanupTmpFiles]) \<and>
         (Method r = ''POST'' \<longrightarrow>
            (if \<exists>c out b.
                  NewClient (url_Parse lib) (endpoint p) (dest p)
                    [WithAccessKey (accessKey p), WithSecretKey (secretKey p)] = Inr c \<and>
                  Export Mutate ctx c = Inr out \<and> json_Marshal lib out = Inr b
             then trace (snd (apiExportHandler lib p ctx Mutate r (w, s))) =
                    trace s @ [Call_Export, Return_Export, Write_Response, Call_cleanupTmpFiles]
             else Call_cleanupTmpFiles
                    \<notin> set (drop (length (trace s)) (trace (snd (apiExportHandler lib p ctx Mutate r (w, s)))))))"
proof (intro conjI impI)
  assume m: "Method r \<noteq> ''POST''"
  show "fst (apiExportHandler lib p ctx Mutate r (w, s)) = http_Error w ''Method not allowed'' 405"
    by (rule handler_other_response [OF m])
  show "trace (snd (apiExportHandler lib p ctx Mutate r (w, s))) =
              trace s @ [Write_Response, Call_cleanupTmpFiles]"
    using assms by (simp add: handler_other_trace [OF m])
  assume "Status w = None"
  then show "Status (fst (apiExportHandler lib p ctx Mutate r (w, s))) = Some 405"
    by (simp add: handler_other_response [OF m] http_Error_def Fprintln_def)
next
  assume m: "Method r = ''POST''"
  let ?n = "NewClient (url_Parse lib) (endpoint p) (dest p)
                    [WithAccessKey (accessKey p), WithSecretKey (secretKey p)]"
  show "if \<exists>c out b. ?n = Inr c \<and> Export Mutate ctx c = Inr out \<and> json_Marshal lib out = Inr b
        then trace (snd (apiExportHandler lib p ctx Mutate r (w, s))) =
               trace s @ [Call_Export, Return_Export, Write_Response, Call_cleanupTmpFiles]
        else Call_cleanupTmpFiles
               \<notin> set (drop (length (trace s)) (trace (snd (apiExportHandler lib p ctx Mutate r (w, s)))))"
  proof (cases ?n)
    case (Inl err)
    then show ?thesis by (simp add: handler_post_noclient_trace [OF m Inl])
  next
    case (Inr c)
    show ?thesis
      using assms Inr
      by (auto simp: handler_post_trace [OF m Inr] succeeded_def split: sum.splits)
  qed
qed

theorem C10_sweep_after_request_witness:
  "cleanup (dgraphTmp params_cleanup) \<and>
   Method get_request \<noteq> ''POST'' \<and> Status w0 = None \<and>
   Status (fst (apiExportHandler lib0 params_cleanup ctx_live remote_ok get_request (w0, fresh example_fs))) = Some 405 \<and>
   trace (snd (apiExportHandler lib0 params_cleanup ctx_live remote_ok get_request (w0, fresh example_fs))) =
     [Write_Response, Call_cleanupTmpFiles] \<and>
   Method post_request = ''POST'' \<and>
   trace (snd (apiExportHandler lib0 params_cleanup ctx_live remote_ok post_request (w0, fresh example_fs))) =
     [Call_Export, Return_Export, Write_Response, Call_cleanupTmpFiles]"
proof -
  have c: "cleanup (dgraphTmp params_cleanup)" by (simp add: params_cleanup_def params0_def)
  have g: "Method get_request \<noteq> ''POST''" by (simp add: get_request_def)
  have m: "Method post_request = ''POST''" by (simp add: post_request_def)
  have w: "Status w0 = None" by (simp add: w0_def)
  have e: "\<exists>c out b. NewClient (url_Parse lib0) (endpoint params_cleanup) (dest params_cleanup)
      [WithAccessKey (accessKey params_cleanup), WithSecretKey (secretKey params_cleanup)] = Inr c \<and>
      Export remote_ok ctx_live c = Inr out \<and> json_Marshal lib0 out = Inr b"
    using NewClient_params_cleanup Export_scenarios(1) [of ctx_live] by (auto simp: lib0_def)
  from C10_sweep_after_request [OF c, of get_request lib0 ctx_live remote_ok w0 "fresh example_fs"] g w
  have 1: "Status (fst (apiExportHandler lib0 params_cleanup ctx_live remote_ok get_request (w0, fresh example_fs))) = Some 405"
    and 2: "trace (snd (apiExportHandler lib0 params_cleanup ctx_live remote_ok get_request (w0, fresh example_fs))) =
      trace (fresh example_fs) @ [Write_Response, Call_cleanupTmpFiles]"
    by blast+
  from C10_sweep_after_request [OF c, of post_request lib0 ctx_live remote_ok w0 "fresh example_fs"] m e
  have 3: "trace (snd (apiExportHandler lib0 params_cleanup ctx_live remote_ok post_request (w0, fresh example_fs))) =
      trace (fresh example_fs) @ [Call_Export, Return_Export, Write_Response, Call_cleanupTmpFiles]"
    by presburger
  from c g w m 1 2 3 show ?thesis by (simp add: fresh_def)
qed

text \<open>
  The claim C10 as stated fails for a request whose export attempt failed: with
  cleanup enabled and a remote that answers with the code \<open>Error\<close>, the handler
  writes the error and returns, and no sweep is run.
\<close>

theorem C10_no_sweep_after_failed_post:
  "cleanup (dgraphTmp params_cleanup) \<and>
   Call_cleanupTmpFiles \<notin> set (trace (snd (apiExportHandler lib0 params_cleanup ctx_live remote_rejects
       post_request (w0, fresh example_fs)))) \<and>
   fst (apiExportHandler lib0 params_cleanup ctx_live remote_rejects post_request (w0, fresh example_fs)) =
     \<lparr>Status = Some 200,
      Body = ''export finished with unseccessfull code '' @ [CHR 0x22] @ ''Error'' @ [CHR 0x22]
        @ '': export already in progress'' @ [CHR 0x0A]\<rparr>"
proof -
  have c: "cleanup (dgraphTmp params_cleanup)" by (simp add: params_cleanup_def params0_def)
  have m: "Method post_request = ''POST''" by (simp add: post_request_def)
  have "trace (snd (apiExportHandler lib0 params_cleanup ctx_live remote_rejects
       post_request (w0, fresh example_fs))) = [Call_Export, Return_Export, Write_Response]"
    by (simp add: handler_post_trace [OF m NewClient_params_cleanup] Export_scenarios fresh_def)
  moreover have "fst (apiExportHandler lib0 params_cleanup ctx_live remote_rejects post_request (w0, fresh example_fs)) =
     \<lparr>Status = Some 200,
      Body = ''export finished with unseccessfull code '' @ [CHR 0x22] @ ''Error'' @ [CHR 0x22]
        @ '': export already in progress'' @ [CHR 0x0A]\<rparr>"
    by (simp add: handler_post_response [OF m NewClient_params_cleanup] Export_scenarios)
       (simp add: Fprintln_def w0_def unsuccessful_text_def)
  ultimately show ?thesis using c by simp
qed

text \<open>
  C2, as the code has it. The handler consults nothing that tells whether an
  Invocation is under way: a \<open>POST\<close> request whose client is built makes its own
  call of \<open>Export\<close> at once, in whatever world it arrives, makes no other, and
  answers with the outcome of that call (the serialised output, or the text of the
  error). There is no busy answer.
\<close>

theorem C2_post_starts_export_at_once:
  assumes "Method r = ''POST''"
    and "NewClient (url_Parse lib) (endpoint p) (dest p)
           [WithAccessKey (accessKey p), WithSecretKey (secretKey p)] = Inr c"
  shows "(\<exists>rest. trace (snd (apiExportHandler lib p ctx Mutate r (w, s))) =
            trace s @ [Call_Export, Return_Export, Write_Response] @ rest \<and>
            Call_Export \<notin> set rest) \<and>
         fst (apiExportHandler lib p ctx Mutate r (w, s)) =
           Fprintln w
             (case Export Mutate ctx c of
                Inl err \<Rightarrow> Error err
              | Inr out \<Rightarrow> (case json_Marshal lib out of Inl err \<Rightarrow> Error err | Inr b \<Rightarrow> b))"
proof
  let ?rest = "if (case Export Mutate ctx c of Inl err \<Rightarrow> False | Inr out \<Rightarrow> succeeded (json_Marshal lib out))
           \<and> cleanup (dgraphTmp p)
        then [Call_cleanupTmpFiles] else []"
  have "trace (snd (apiExportHandler lib p ctx Mutate r (w, s))) =
            trace s @ [Call_Export, Return_Export, Write_Response] @ ?rest"
    by (rule handler_post_trace [OF assms])
  moreover have "Call_Export \<notin> set ?rest" by simp
  ultimately show "\<exists>rest. trace (snd (apiExportHandler lib p ctx Mutate r (w, s))) =
            trace s @ [Call_Export, Return_Export, Write_Response] @ rest \<and>
            Call_Export \<notin> set rest" by blast
next
  show "fst (apiExportHandler lib p ctx Mutate r (w, s)) =
           Fprintln w
             (case Export Mutate ctx c of
                Inl err \<Rightarrow> Error err
              | Inr out \<Rightarrow> (case json_Marshal lib out of Inl err \<Rightarrow> Error err | Inr b \<Rightarrow> b))"
    by (rule handler_post_response [OF assms])
qed

theorem C2_post_starts_export_at_once_witness:
  "Method post_request = ''POST'' \<and>
   NewClient (url_Parse lib0) (endpoint params0) (dest params0)
     [WithAccessKey (accessKey params0), WithSecretKey (secretKey params0)] = Inr client0 \<and>
   active (map (Pair Loop) (trace world_in_flight)) = 1 \<and>
   take 4 (trace (snd (apiExportHandler lib0 params0 ctx_live remote_ok post_request (w0, world_in_flight)))) =
     [Call_Export, Call_Export, Return_Export, Write_Response] \<and>
   fst (apiExportHandler lib0 params0 ctx_live remote_ok post_request (w0, world_in_flight)) =
     \<lparr>Status = Some 200, Body = ''{json}'' @ [CHR 0x0A]\<rparr>"
proof -
  have m: "Method post_request = ''POST''" by (simp add: post_request_def)
  from C2_post_starts_export_at_once [OF m NewClient_params0, of ctx_live remote_ok w0 world_in_flight]
  obtain rest where
    t: "trace (snd (apiExportHandler lib0 params0 ctx_live remote_ok post_request (w0, world_in_flight))) =
       trace world_in_flight @ [Call_Export, Return_Export, Write_Response] @ rest"
    and f: "fst (apiExportHandler lib0 params0 ctx_live remote_ok post_request (w0, world_in_flight)) =
       Fprintln w0 (case Export remote_ok ctx_live client0 of
                Inl err \<Rightarrow> Error err
              | Inr out \<Rightarrow> (case json_Marshal lib0 out of Inl err \<Rightarrow> Error err | Inr b \<Rightarrow> b))"
    by blast
  from t have 1: "take 4 (trace (snd (apiExportHandler lib0 params0 ctx_live remote_ok post_request (w0, world_in_flight)))) =
     [Call_Export, Call_Export, Return_Export, Write_Response]"
    by (simp add: world_in_flight_def fresh_def)
  from f have 2: "fst (apiExportHandler lib0 params0 ctx_live remote_ok post_request (w0, world_in_flight)) =
     \<lparr>Status = Some 200, Body = ''{json}'' @ [CHR 0x0A]\<rparr>"
    by (simp add: Export_scenarios) (simp add: lib0_def Fprintln_def w0_def)
  have 3: "active (map (Pair Loop) (trace world_in_flight)) = 1"
    by (simp add: world_in_flight_def fresh_def)
  from m NewClient_params0 1 2 3 show ?thesis by blast
qed

text \<open>
  The claim C2 as stated fails: in the run below the request arrives while the timer's
  call of \<open>Export\<close> is under way; the handler enters \<open>Export\<close> all the same and
  answers with status 200 and the serialised output.
\<close>

theorem C2_request_during_invocation_not_rejected:
  "[(Loop, Call_Export)] @ handler_events lib0 params0 ctx_live 0 (post_request, remote_ok, example_fs)
       @ [(Loop, Return_Export)]
     \<in> shuffles (loop_events lib0 params0 ctx_live [OnStartedLeading, Tick remote_ok] example_fs)
         (handler_events lib0 params0 ctx_live 0 (post_request, remote_ok, example_fs)) \<and>
   active [(Loop, Call_Export)] = 1 \<and>
   handler_events lib0 params0 ctx_live 0 (post_request, remote_ok, example_fs) =
     [(Handler 0, Call_Export), (Handler 0, Return_Export), (Handler 0, Write_Response)] \<and>
   fst (apiExportHandler lib0 params0 ctx_live remote_ok post_request (w0, fresh example_fs)) =
     \<lparr>Status = Some 200, Body = ''{json}'' @ [CHR 0x0A]\<rparr>"
  by (simp add: loop_one_tick handler_one_post handler_one_post_response)

text \<open>
  C1, as the code has it. The calls of \<open>Export\<close> made by the timer loop never
  overlap: at most one of them is active at any instant. The handlers take no token,
  so in a run of the loop beside the handlers of any requests, each request adds at
  most one: with \<open>n\<close> requests at most \<open>n + 1\<close> calls are active at any instant.
\<close>

theorem C1_exports_active_bound:
  "max_active (loop_events lib p ctx sigs fs) \<le> 1 \<and>
   (\<forall>tr\<in>interleavings (loop_events lib p ctx sigs fs # handlers_events lib p ctx' 0 arrivals).
      max_active tr \<le> 1 + int (length arrivals))"
proof (intro conjI ballI)
  show "max_active (loop_events lib p ctx sigs fs) \<le> 1"
    by (simp add: max_active_def loop_events_peak)
next
  fix tr
  assume "tr \<in> interleavings (loop_events lib p ctx sigs fs # handlers_events lib p ctx' 0 arrivals)"
  from peak_interleavings [OF this]
  have "peak 0 tr \<le> peak 0 (loop_events lib p ctx sigs fs)
      + sum_list (map (peak 0) (handlers_events lib p ctx' 0 arrivals))" by simp
  with loop_events_peak [of lib p ctx sigs fs] handlers_events_peak [of lib p ctx' 0 arrivals]
  show "max_active tr \<le> 1 + int (length arrivals)" by (simp add: max_active_def)
qed

theorem C1_exports_active_bound_witness:
  "[(Loop, Call_Export), (Handler 0, Call_Export), (Loop, Return_Export),
    (Handler 0, Return_Export), (Handler 0, Write_Response)]
     \<in> interleavings
         (loop_events lib0 params0 ctx_live [OnStartedLeading, Tick remote_ok] example_fs
          # handlers_events lib0 params0 ctx_live 0 [(post_request, remote_ok, example_fs)]) \<and>
   max_active [(Loop, Call_Export), (Handler 0, Call_Export), (Loop, Return_Export),
    (Handler 0, Return_Export), (Handler 0, Write_Response)]
     \<le> 1 + int (length [(post_request, remote_ok, example_fs)])"
proof -
  let ?tr = "[(Loop, Call_Export), (Handler 0, Call_Export), (Loop, Return_Export),
    (Handler 0, Return_Export), (Handler 0, Write_Response)]"
  have m: "?tr \<in> interleavings
         (loop_events lib0 params0 ctx_live [OnStartedLeading, Tick remote_ok] example_fs
          # handlers_events lib0 params0 ctx_live 0 [(post_request, remote_ok, example_fs)])"
    by (simp add: loop_one_tick handler_one_post)
  from C1_exports_active_bound [of lib0 params0 ctx_live "[OnStartedLeading, Tick remote_ok]"
      example_fs ctx_live "[(post_request, remote_ok, example_fs)]"] m
  have "max_active ?tr \<le> 1 + int (length [(post_request, remote_ok, example_fs)])" by blast
  with m show ?thesis by blast
qed

text \<open>
  The claim C1 as stated fails: one tick and one \<open>POST\<close> request have a run in
  which two calls of \<open>Export\<close> are active at once.
\<close>

theorem C1_two_exports_active:
  "[(Loop, Call_Export), (Handler 0, Call_Export), (Loop, Return_Export),
    (Handler 0, Return_Export), (Handler 0, Write_Response)]
     \<in> shuffles (loop_events lib0 params0 ctx_live [OnStartedLeading, Tick remote_ok] example_fs)
         (handler_events lib0 params0 ctx_live 0 (post_request, remote_ok, example_fs)) \<and>
   max_active [(Loop, Call_Export), (Handler 0, Call_Export), (Loop, Return_Export),
    (Handler 0, Return_Export), (Handler 0, Write_Response)] = 2"
  by (simp add: loop_one_tick handler_one_post max_active_def)

end
